theory Spec2Isabelle
  imports Complex_Main
begin

section \<open>Off-policy Monte Carlo control with weighted importance sampling\<close>

text \<open>
  A shallow embedding of the notebook
  \<^verbatim>\<open>racetrack/Racetrack (off-policy, weighted importance sampling).ipynb\<close>:
  the two policy constructors and \<^verbatim>\<open>mc_control_importance_sampling\<close>.

  Conventions of the embedding.
  \<^item> The arithmetic has two readings. In the first, numpy's \<^verbatim>\<open>float64\<close> values are
    idealised as \<^typ>\<open>real\<close> and no operation rounds or overflows: the definitions
    without a suffix, on which the properties of the structure of the loop are proved. In
    the second, the definitions with the suffix \<open>_rnd\<close> pass the result of every
    arithmetic operation through a rounding function; with \<open>f64_round\<close>, rounding to
    the nearest \<^verbatim>\<open>float64\<close> value with ties to even, this is the arithmetic numpy
    performs. With a rounding function that changes nothing the second reading is the
    first.
  \<^item> A value is a \<^typ>\<open>real\<close> in both readings, so a result that is not finite has no
    value. numpy answers a division by zero and an overflow with such a result (and a
    warning) and goes on; the model ends the run there, with \<open>ZeroDivision\<close> or
    \<open>Overflow\<close>. NaN and the sign of zero are not modelled.
  \<^item> A numpy array is a \<^typ>\<open>real list\<close>; an action is an index, a \<^typ>\<open>nat\<close>.
    An index beyond the array raises \<^verbatim>\<open>IndexError\<close> in the source and is the result
    \<open>IndexError\<close> here.
  \<^item> \<^verbatim>\<open>Q\<close> and \<^verbatim>\<open>C\<close> are \<^verbatim>\<open>defaultdict\<close>s from states to arrays, modelled
    as maps; looking a missing key up stores the default row, so a lookup returns the row
    together with the table after the lookup.
  \<^item> The environment (\<^verbatim>\<open>racetrack_env\<close>) and numpy's random generator are external
    to the notebook. They are parameters: total functions that pass a world state
    \<open>'w\<close> along.
\<close>

subsection \<open>Data\<close>

datatype error = IndexError | ValueError | ZeroDivision | Overflow

type_synonym 's table = "'s \<rightharpoonup> real list"

type_synonym 's transition = "'s \<times> nat \<times> real"

record ('s, 'w) env =
  action_space_n :: nat
  reset :: "'w \<Rightarrow> 's \<times> 'w"
  step :: "nat \<Rightarrow> 'w \<Rightarrow> ('s \<times> real \<times> bool) \<times> 'w"

definition MAX_STEP :: nat where
  "MAX_STEP = 70"

subsection \<open>numpy helpers\<close>

definition np_ones :: "nat \<Rightarrow> real list" where
  "np_ones n = replicate n 1"

definition np_zeros :: "nat \<Rightarrow> real list" where
  "np_zeros n = replicate n 0"

text \<open>
  \<^verbatim>\<open>np.argmax\<close>: the index of the first maximum; on an empty array it raises
  \<^verbatim>\<open>ValueError\<close>. \<open>argmax_from xs i bi bv\<close> scans the rest \<open>xs\<close> of the array, whose
  first element has index \<open>i\<close>, with the best index \<open>bi\<close> and best value \<open>bv\<close> so far;
  only a strictly greater value replaces the best.
\<close>

fun argmax_from :: "real list \<Rightarrow> nat \<Rightarrow> nat \<Rightarrow> real \<Rightarrow> nat" where
  "argmax_from [] i bi bv = bi"
| "argmax_from (x # xs) i bi bv =
     (if bv < x then argmax_from xs (Suc i) i x else argmax_from xs (Suc i) bi bv)"

definition np_argmax :: "real list \<Rightarrow> error + nat" where
  "np_argmax xs = (case xs of [] \<Rightarrow> Inl ValueError | x # rest \<Rightarrow> Inr (argmax_from rest 1 0 x))"

text \<open>
  \<^verbatim>\<open>defaultdict(lambda: np.zeros(env.action_space.n))\<close>: a new table has no
  keys, and \<^verbatim>\<open>T[state]\<close> returns the stored row, or stores and returns a fresh zero
  row of length \<open>nA\<close>.
\<close>

definition empty_table :: "'s table" where
  "empty_table = Map.empty"

definition getitem :: "nat \<Rightarrow> 's table \<Rightarrow> 's \<Rightarrow> real list \<times> 's table" where
  "getitem nA T state =
     (case T state of
        Some r \<Rightarrow> (r, T)
      | None \<Rightarrow> (np_zeros nA, T(state \<mapsto> np_zeros nA)))"

text \<open>
  The row and the cell of a table as a reader sees them (the stored row, or the zero row
  a lookup would create). These are used in the statements only.
\<close>

definition row :: "nat \<Rightarrow> 's table \<Rightarrow> 's \<Rightarrow> real list" where
  "row nA T state = fst (getitem nA T state)"

definition cell :: "nat \<Rightarrow> 's table \<Rightarrow> 's \<Rightarrow> nat \<Rightarrow> real" where
  "cell nA T state action = row nA T state ! action"

subsection \<open>The policy constructors\<close>

text \<open>
  \<^verbatim>\<open>create_random_policy(env)\<close>: \<^verbatim>\<open>A = np.ones(nA, dtype=float) / nA\<close>, and the
  returned \<^verbatim>\<open>policy_fn\<close> answers \<^verbatim>\<open>A\<close> for every observation.
\<close>

definition create_random_policy :: "('s, 'w) env \<Rightarrow> 'o \<Rightarrow> real list" where
  "create_random_policy env =
     (let nA = action_space_n env;
          A = map (\<lambda>x. x / real nA) (np_ones nA)
      in (\<lambda>observation. A))"

text \<open>
  \<^verbatim>\<open>create_greedy_policy(Q)\<close> returns a closure over the live table; here the table
  is an argument and the table after the call is returned with the distribution. The
  source reads \<^verbatim>\<open>Q[state]\<close> twice (for \<^verbatim>\<open>zeros_like\<close> and for \<^verbatim>\<open>argmax\<close>).
\<close>

definition create_greedy_policy ::
  "nat \<Rightarrow> 's table \<Rightarrow> 's \<Rightarrow> error + (real list \<times> 's table)" where
  "create_greedy_policy nA Q state =
     (case getitem nA Q state of (row1, Q1) \<Rightarrow>
      (let A = np_zeros (length row1) in
       (case getitem nA Q1 state of (row2, Q2) \<Rightarrow>
        (case np_argmax row2 of
           Inl e \<Rightarrow> Inl e
         | Inr best_action \<Rightarrow> Inr (A[best_action := 1], Q2)))))"

subsection \<open>The backward pass\<close>

text \<open>
  The variables the reverse traversal of one episode carries: the running return
  \<^verbatim>\<open>G\<close>, the running importance weight \<^verbatim>\<open>W\<close>, and the two tables, which live on
  from episode to episode.
\<close>

record 's lstate =
  G_val :: real
  W_val :: real
  C_tab :: "'s table"
  Q_tab :: "'s table"

text \<open>
  The first half of the loop body:
  \<^verbatim>\<open>
  G = discount_factor * G + reward
  C[state][action] += W
  qd = (W / C[state][action]) * (G - Q[state][action])
  Q[state][action] += qd
  \<close>
\<close>

definition update_tables ::
  "nat \<Rightarrow> real \<Rightarrow> 's transition \<Rightarrow> 's lstate \<Rightarrow> error + 's lstate" where
  "update_tables nA discount_factor tr st =
     (case tr of (state, action, reward) \<Rightarrow>
      (let G' = discount_factor * G_val st + reward in
       (case getitem nA (C_tab st) state of (crow, C1) \<Rightarrow>
        if length crow \<le> action then Inl IndexError
        else
          (let crow' = crow[action := crow ! action + W_val st];
               C2 = C1(state \<mapsto> crow')
           in if crow' ! action = 0 then Inl ZeroDivision
              else
                (case getitem nA (Q_tab st) state of (qrow, Q1) \<Rightarrow>
                 if length qrow \<le> action then Inl IndexError
                 else
                   (let qd = (W_val st / crow' ! action) * (G' - qrow ! action);
                        qrow' = qrow[action := qrow ! action + qd]
                    in Inr \<lparr>G_val = G', W_val = W_val st, C_tab = C2,
                            Q_tab = Q1(state \<mapsto> qrow')\<rparr>))))))"

text \<open>
  The whole loop body. The flag of the result is \<open>True\<close> when the body ends in
  \<^verbatim>\<open>break\<close>:
  \<^verbatim>\<open>
  if action != np.argmax(target_policy(state)):
      break
  bepol = behavior_policy(state)[action]
  W = W * 1./bepol
  \<close>
\<close>

definition update_step ::
  "nat \<Rightarrow> ('s \<Rightarrow> real list) \<Rightarrow> real \<Rightarrow> 's transition \<Rightarrow> 's lstate
     \<Rightarrow> error + (bool \<times> 's lstate)" where
  "update_step nA behavior_policy discount_factor tr st =
     (case tr of (state, action, reward) \<Rightarrow>
      (case update_tables nA discount_factor tr st of
         Inl e \<Rightarrow> Inl e
       | Inr st1 \<Rightarrow>
          (case create_greedy_policy nA (Q_tab st1) state of
             Inl e \<Rightarrow> Inl e
           | Inr (A, Q2) \<Rightarrow>
              (case np_argmax A of
                 Inl e \<Rightarrow> Inl e
               | Inr greedy \<Rightarrow>
                  if action \<noteq> greedy then Inr (True, st1\<lparr>Q_tab := Q2\<rparr>)
                  else
                    (let probs = behavior_policy state in
                     if length probs \<le> action then Inl IndexError
                     else
                       (let bepol = probs ! action in
                        if bepol = 0 then Inl ZeroDivision
                        else Inr (False, st1\<lparr>W_val := W_val st1 * 1 / bepol,
                                              Q_tab := Q2\<rparr>)))))))"

text \<open>
  \<^verbatim>\<open>for t in range(len(episode))[::-1]\<close>: the argument is the episode already
  reversed, latest step first.
\<close>

fun backward ::
  "nat \<Rightarrow> ('s \<Rightarrow> real list) \<Rightarrow> real \<Rightarrow> 's transition list \<Rightarrow> 's lstate
     \<Rightarrow> error + 's lstate" where
  "backward nA behavior_policy discount_factor [] st = Inr st"
| "backward nA behavior_policy discount_factor (tr # earlier) st =
     (case update_step nA behavior_policy discount_factor tr st of
        Inl e \<Rightarrow> Inl e
      | Inr (brk, st') \<Rightarrow>
          if brk then Inr st'
          else backward nA behavior_policy discount_factor earlier st')"

text \<open>
  The backward pass of one episode: \<^verbatim>\<open>G = 0.0\<close>, \<^verbatim>\<open>W = 1.0\<close>, then the reverse
  traversal. The result keeps \<^verbatim>\<open>G\<close> and \<^verbatim>\<open>W\<close> as the loop left them; the next
  episode resets them.
\<close>

definition process_episode ::
  "nat \<Rightarrow> ('s \<Rightarrow> real list) \<Rightarrow> real \<Rightarrow> 's transition list \<Rightarrow> 's table \<Rightarrow> 's table
     \<Rightarrow> error + 's lstate" where
  "process_episode nA behavior_policy discount_factor episode C Q =
     backward nA behavior_policy discount_factor (rev episode)
       \<lparr>G_val = 0, W_val = 1, C_tab = C, Q_tab = Q\<rparr>"

subsection \<open>Episode generation\<close>

text \<open>
  \<^verbatim>\<open>
  for t in range(MAX_STEP):
      probs = behavior_policy(state)
      action = np.random.choice(np.arange(len(probs)), p=probs)
      next_state, reward, done, _ = env.step(action)
      episode.append((state, action, reward))
      if done:
          break
      state = next_state
  \<close>
  \<open>random_choice\<close> stands for \<^verbatim>\<open>np.random.choice\<close>; the first argument of
  \<open>generate_from\<close> is the number of iterations left.
\<close>

fun generate_from ::
  "nat \<Rightarrow> ('s, 'w) env \<Rightarrow> (real list \<Rightarrow> 'w \<Rightarrow> nat \<times> 'w) \<Rightarrow> ('s \<Rightarrow> real list)
     \<Rightarrow> 's \<Rightarrow> 's transition list \<Rightarrow> 'w \<Rightarrow> 's transition list \<times> 'w" where
  "generate_from 0 env random_choice behavior_policy state episode w = (episode, w)"
| "generate_from (Suc n) env random_choice behavior_policy state episode w =
     (let probs = behavior_policy state in
      (case random_choice probs w of (action, w1) \<Rightarrow>
       (case step env action w1 of ((next_state, reward, done), w2) \<Rightarrow>
        (let episode' = episode @ [(state, action, reward)] in
         if done then (episode', w2)
         else generate_from n env random_choice behavior_policy next_state episode' w2))))"

definition generate_episode ::
  "('s, 'w) env \<Rightarrow> (real list \<Rightarrow> 'w \<Rightarrow> nat \<times> 'w) \<Rightarrow> ('s \<Rightarrow> real list) \<Rightarrow> 'w
     \<Rightarrow> 's transition list \<times> 'w" where
  "generate_episode env random_choice behavior_policy w =
     (case reset env w of (state, w0) \<Rightarrow>
      generate_from MAX_STEP env random_choice behavior_policy state [] w0)"

subsection \<open>The control loop\<close>

text \<open>
  \<^verbatim>\<open>for i_episode in range(1, num_episodes + 1)\<close>: generate an episode, then run its
  backward pass on the tables. The progress output is left out. The first argument of
  \<open>episodes_loop\<close> is the number of episodes left.
\<close>

fun episodes_loop ::
  "nat \<Rightarrow> ('s, 'w) env \<Rightarrow> (real list \<Rightarrow> 'w \<Rightarrow> nat \<times> 'w) \<Rightarrow> ('s \<Rightarrow> real list) \<Rightarrow> real
     \<Rightarrow> 's table \<Rightarrow> 's table \<Rightarrow> 'w \<Rightarrow> error + (('s table \<times> 's table) \<times> 'w)" where
  "episodes_loop 0 env random_choice behavior_policy discount_factor C Q w = Inr ((C, Q), w)"
| "episodes_loop (Suc n) env random_choice behavior_policy discount_factor C Q w =
     (case generate_episode env random_choice behavior_policy w of (episode, w') \<Rightarrow>
      (case process_episode (action_space_n env) behavior_policy discount_factor episode C Q of
         Inl e \<Rightarrow> Inl e
       | Inr st \<Rightarrow>
           episodes_loop n env random_choice behavior_policy discount_factor
             (C_tab st) (Q_tab st) w'))"

text \<open>
  \<^verbatim>\<open>mc_control_importance_sampling\<close> starts from two empty tables and returns
  \<^verbatim>\<open>Q\<close>; the target policy it returns with it is \<open>create_greedy_policy\<close> on that
  table.
\<close>

definition mc_control_importance_sampling ::
  "('s, 'w) env \<Rightarrow> (real list \<Rightarrow> 'w \<Rightarrow> nat \<times> 'w) \<Rightarrow> nat \<Rightarrow> ('s \<Rightarrow> real list) \<Rightarrow> real
     \<Rightarrow> 'w \<Rightarrow> error + ('s table \<times> 'w)" where
  "mc_control_importance_sampling env random_choice num_episodes behavior_policy
       discount_factor w =
     (case episodes_loop num_episodes env random_choice behavior_policy discount_factor
             empty_table empty_table w of
        Inl e \<Rightarrow> Inl e
      | Inr ((C, Q), w') \<Rightarrow> Inr (Q, w'))"

subsection \<open>The iterations of a run\<close>

text \<open>
  The loop state at the boundaries of the backward-pass iterations, as a step relation.
  \<open>iterations nA behavior_policy discount_factor st0 h st\<close>: from \<open>st0\<close> the loop
  reaches \<open>st\<close>, and \<open>h\<close> lists, latest first, the weight \<^verbatim>\<open>W\<close> with which each
  iteration on the way ran and the \<^verbatim>\<open>(state, action)\<close> it processed. Between two
  iterations an episode may end and the next one begin, which resets \<^verbatim>\<open>G\<close> and
  \<^verbatim>\<open>W\<close> and leaves the tables alone. The relation does not look at which trajectory
  the environment produced: every trajectory is allowed.
\<close>

inductive iterations ::
  "nat \<Rightarrow> ('s \<Rightarrow> real list) \<Rightarrow> real \<Rightarrow> 's lstate \<Rightarrow> (real \<times> 's \<times> nat) list \<Rightarrow> 's lstate
     \<Rightarrow> bool"
  for nA :: nat and behavior_policy :: "'s \<Rightarrow> real list" and discount_factor :: real
    and st0 :: "'s lstate" where
  start: "iterations nA behavior_policy discount_factor st0 [] st0"
| next_episode:
    "iterations nA behavior_policy discount_factor st0 h st \<Longrightarrow>
     iterations nA behavior_policy discount_factor st0 h (st\<lparr>G_val := 0, W_val := 1\<rparr>)"
| iteration:
    "iterations nA behavior_policy discount_factor st0 h st \<Longrightarrow>
     update_step nA behavior_policy discount_factor (state, action, reward) st = Inr (brk, st') \<Longrightarrow>
     iterations nA behavior_policy discount_factor st0 ((W_val st, state, action) # h) st'"

text \<open>The loop state in which the first backward pass of a run begins.\<close>

definition first_state :: "'s lstate" where
  "first_state = \<lparr>G_val = 0, W_val = 1, C_tab = empty_table, Q_tab = empty_table\<rparr>"

subsection \<open>The steps of a rollout, for comparison with the episode generator\<close>

text \<open>
  \<open>rollout n\<close> drives the environment for \<open>n\<close> steps under the behaviour policy and
  records each step with its \<^verbatim>\<open>done\<close> flag; unlike the generator it does not look at
  the flag. The generated episode is compared with a prefix of it.
\<close>

fun rollout ::
  "nat \<Rightarrow> ('s, 'w) env \<Rightarrow> (real list \<Rightarrow> 'w \<Rightarrow> nat \<times> 'w) \<Rightarrow> ('s \<Rightarrow> real list)
     \<Rightarrow> 's \<Rightarrow> 'w \<Rightarrow> ('s transition \<times> bool) list" where
  "rollout 0 env random_choice behavior_policy state w = []"
| "rollout (Suc n) env random_choice behavior_policy state w =
     (case random_choice (behavior_policy state) w of (action, w1) \<Rightarrow>
      (case step env action w1 of ((next_state, reward, done), w2) \<Rightarrow>
       ((state, action, reward), done)
         # rollout n env random_choice behavior_policy next_state w2))"

subsection \<open>The arithmetic of \<^verbatim>\<open>float64\<close>\<close>

text \<open>
  A finite \<^verbatim>\<open>float64\<close> value is \<open>m * 2 ^ e\<close> with an integer \<open>m\<close> of at most 53
  bits and \<open>- 1074 \<le> e \<le> 971\<close>. An arithmetic operation returns the exact result
  rounded to the nearest such value, the one with the even \<open>m\<close> on a tie, and overflows
  when the rounded result reaches \<open>2 ^ 1024\<close>.

  \<open>flog2 n\<close> is the position of the leading bit of \<open>n\<close>. \<open>f64_exponent x\<close> is the
  binary exponent of \<open>x\<close>, the \<open>e\<close> with \<open>2 ^ e \<le> \<bar>x\<bar> < 2 ^ (e + 1)\<close>, and
  \<open>- 1022\<close>, the exponent of the subnormal values, below that. The spacing of the
  \<^verbatim>\<open>float64\<close> values around \<open>x\<close> is \<open>2 ^ (f64_exponent x - 52)\<close>.
\<close>

fun flog2 :: "nat \<Rightarrow> nat" where
  "flog2 n = (if n < 2 then 0 else Suc (flog2 (n div 2)))"

definition f64_exponent :: "real \<Rightarrow> int" where
  "f64_exponent x = int (flog2 (nat \<lfloor>\<bar>x\<bar> * 2 ^ 1022\<rfloor>)) - 1022"

definition round_half_even :: "real \<Rightarrow> int" where
  "round_half_even y =
     (let f = \<lfloor>y\<rfloor> in
      if y - of_int f < 1 / 2 then f
      else if 1 / 2 < y - of_int f then f + 1
      else if even f then f else f + 1)"

definition f64_round :: "real \<Rightarrow> error + real" where
  "f64_round x =
     (let ulp = 2 powi (f64_exponent x - 52);
          y = ulp * of_int (round_half_even (x / ulp))
      in if 2 ^ 1024 \<le> \<bar>y\<bar> then Inl Overflow else Inr y)"

subsection \<open>The backward pass with rounded arithmetic\<close>

text \<open>
  \<^verbatim>\<open>G = discount_factor * G + reward\<close>, a product and then a sum, each rounded by
  \<open>rnd\<close>.
\<close>

definition return_rnd ::
  "(real \<Rightarrow> error + real) \<Rightarrow> real \<Rightarrow> real \<Rightarrow> real \<Rightarrow> error + real" where
  "return_rnd rnd discount_factor G reward =
     (case rnd (discount_factor * G) of
        Inl e \<Rightarrow> Inl e
      | Inr p \<Rightarrow> rnd (p + reward))"

text \<open>
  The first half of the loop body, as \<open>update_tables\<close>, with every operation rounded:
  the sum \<^verbatim>\<open>C[state][action] + W\<close>, the quotient \<^verbatim>\<open>W / C[state][action]\<close>, the
  difference \<^verbatim>\<open>G - Q[state][action]\<close>, their product \<^verbatim>\<open>qd\<close>, and the sum
  \<^verbatim>\<open>Q[state][action] + qd\<close>.
\<close>

definition update_tables_rnd ::
  "(real \<Rightarrow> error + real) \<Rightarrow> nat \<Rightarrow> real \<Rightarrow> 's transition \<Rightarrow> 's lstate
     \<Rightarrow> error + 's lstate" where
  "update_tables_rnd rnd nA discount_factor tr st =
     (case tr of (state, action, reward) \<Rightarrow>
      (case return_rnd rnd discount_factor (G_val st) reward of
         Inl e \<Rightarrow> Inl e
       | Inr G' \<Rightarrow>
          (case getitem nA (C_tab st) state of (crow, C1) \<Rightarrow>
           if length crow \<le> action then Inl IndexError
           else
             (case rnd (crow ! action + W_val st) of
                Inl e \<Rightarrow> Inl e
              | Inr c \<Rightarrow>
                 if c = 0 then Inl ZeroDivision
                 else
                   (case rnd (W_val st / c) of
                      Inl e \<Rightarrow> Inl e
                    | Inr ratio \<Rightarrow>
                       (case getitem nA (Q_tab st) state of (qrow, Q1) \<Rightarrow>
                        if length qrow \<le> action then Inl IndexError
                        else
                          (case rnd (G' - qrow ! action) of
                             Inl e \<Rightarrow> Inl e
                           | Inr diff \<Rightarrow>
                              (case rnd (ratio * diff) of
                                 Inl e \<Rightarrow> Inl e
                               | Inr qd \<Rightarrow>
                                  (case rnd (qrow ! action + qd) of
                                     Inl e \<Rightarrow> Inl e
                                   | Inr q \<Rightarrow>
                                      Inr \<lparr>G_val = G', W_val = W_val st,
                                           C_tab = C1(state \<mapsto> crow[action := c]),
                                           Q_tab = Q1(state \<mapsto> qrow[action := q])\<rparr>)))))))))"

text \<open>
  The whole loop body, as \<open>update_step\<close>; \<^verbatim>\<open>W * 1./bepol\<close> is a product and then
  a quotient.
\<close>

definition update_step_rnd ::
  "(real \<Rightarrow> error + real) \<Rightarrow> nat \<Rightarrow> ('s \<Rightarrow> real list) \<Rightarrow> real \<Rightarrow> 's transition
     \<Rightarrow> 's lstate \<Rightarrow> error + (bool \<times> 's lstate)" where
  "update_step_rnd rnd nA behavior_policy discount_factor tr st =
     (case tr of (state, action, reward) \<Rightarrow>
      (case update_tables_rnd rnd nA discount_factor tr st of
         Inl e \<Rightarrow> Inl e
       | Inr st1 \<Rightarrow>
          (case create_greedy_policy nA (Q_tab st1) state of
             Inl e \<Rightarrow> Inl e
           | Inr (A, Q2) \<Rightarrow>
              (case np_argmax A of
                 Inl e \<Rightarrow> Inl e
               | Inr greedy \<Rightarrow>
                  if action \<noteq> greedy then Inr (True, st1\<lparr>Q_tab := Q2\<rparr>)
                  else
                    (let probs = behavior_policy state in
                     if length probs \<le> action then Inl IndexError
                     else
                       (let bepol = probs ! action in
                        (case rnd (W_val st1 * 1) of
                           Inl e \<Rightarrow> Inl e
                         | Inr w1 \<Rightarrow>
                            if bepol = 0 then Inl ZeroDivision
                            else
                              (case rnd (w1 / bepol) of
                                 Inl e \<Rightarrow> Inl e
                               | Inr w \<Rightarrow>
                                  Inr (False, st1\<lparr>W_val := w, Q_tab := Q2\<rparr>)))))))))"

fun backward_rnd ::
  "(real \<Rightarrow> error + real) \<Rightarrow> nat \<Rightarrow> ('s \<Rightarrow> real list) \<Rightarrow> real \<Rightarrow> 's transition list
     \<Rightarrow> 's lstate \<Rightarrow> error + 's lstate" where
  "backward_rnd rnd nA behavior_policy discount_factor [] st = Inr st"
| "backward_rnd rnd nA behavior_policy discount_factor (tr # earlier) st =
     (case update_step_rnd rnd nA behavior_policy discount_factor tr st of
        Inl e \<Rightarrow> Inl e
      | Inr (brk, st') \<Rightarrow>
          if brk then Inr st'
          else backward_rnd rnd nA behavior_policy discount_factor earlier st')"

definition process_episode_rnd ::
  "(real \<Rightarrow> error + real) \<Rightarrow> nat \<Rightarrow> ('s \<Rightarrow> real list) \<Rightarrow> real \<Rightarrow> 's transition list
     \<Rightarrow> 's table \<Rightarrow> 's table \<Rightarrow> error + 's lstate" where
  "process_episode_rnd rnd nA behavior_policy discount_factor episode C Q =
     backward_rnd rnd nA behavior_policy discount_factor (rev episode)
       \<lparr>G_val = 0, W_val = 1, C_tab = C, Q_tab = Q\<rparr>"

section \<open>Properties\<close>

subsection \<open>Tables with default rows\<close>

lemma row_Some: "T state = Some r \<Longrightarrow> row nA T state = r"
  by (simp add: row_def getitem_def)

lemma row_None: "T state = None \<Longrightarrow> row nA T state = replicate nA 0"
  by (simp add: row_def getitem_def np_zeros_def)

lemma row_empty_table: "row nA empty_table state = replicate nA 0"
  by (simp add: row_None empty_table_def)

lemma getitem_eq:
  "getitem nA T state = (row nA T state, T(state \<mapsto> row nA T state))"
  by (auto simp: row_def getitem_def split: option.splits)

lemma row_upd_same: "row nA (T(state \<mapsto> r)) state = r"
  by (simp add: row_Some)

lemma row_upd_other: "s \<noteq> state \<Longrightarrow> row nA (T(state \<mapsto> r)) s = row nA T s"
  by (simp add: row_def getitem_def split: option.splits)

lemma row_stored: "row nA (T(state \<mapsto> row nA T state)) s = row nA T s"
  by (cases "s = state") (simp_all add: row_upd_same row_upd_other)

subsection \<open>The first maximum\<close>

text \<open>
  The scan keeps the invariant that the best index so far is the first maximum of the
  part \<open>pre\<close> of the array already seen.
\<close>

lemma argmax_from_first_max:
  assumes "length pre = i" "bi < i" "bv = pre ! bi"
    and "\<forall>j<i. pre ! j \<le> bv" and "\<forall>j<bi. pre ! j < bv"
  shows "argmax_from xs i bi bv < length (pre @ xs) \<and>
         (\<forall>j<length (pre @ xs). (pre @ xs) ! j \<le> (pre @ xs) ! argmax_from xs i bi bv) \<and>
         (\<forall>j<argmax_from xs i bi bv. (pre @ xs) ! j < (pre @ xs) ! argmax_from xs i bi bv)"
  using assms
proof (induction xs arbitrary: pre i bi bv)
  case Nil
  then show ?case by simp
next
  case (Cons x xs)
  have a: "length (pre @ [x]) = Suc i" using Cons.prems by simp
  show ?case
  proof (cases "bv < x")
    case True
    have b: "i < Suc i" by simp
    have c: "x = (pre @ [x]) ! i" using Cons.prems(1) by (simp add: nth_append)
    have d: "\<forall>j<Suc i. (pre @ [x]) ! j \<le> x"
      using Cons.prems True by (auto simp: nth_append less_Suc_eq)
    have e: "\<forall>j<i. (pre @ [x]) ! j < x"
      using Cons.prems True by (auto simp: nth_append intro: le_less_trans)
    from Cons.IH[OF a b c d e] True show ?thesis by simp
  next
    case False
    have b: "bi < Suc i" using Cons.prems by simp
    have c: "bv = (pre @ [x]) ! bi" using Cons.prems by (simp add: nth_append)
    have d: "\<forall>j<Suc i. (pre @ [x]) ! j \<le> bv"
      using Cons.prems False by (auto simp: nth_append less_Suc_eq)
    have e: "\<forall>j<bi. (pre @ [x]) ! j < bv"
      using Cons.prems by (auto simp: nth_append)
    from Cons.IH[OF a b c d e] False show ?thesis by simp
  qed
qed

lemma np_argmax_first_max:
  assumes "xs \<noteq> []"
  shows "\<exists>k. np_argmax xs = Inr k \<and> k < length xs \<and>
           (\<forall>j<length xs. xs ! j \<le> xs ! k) \<and> (\<forall>j<k. xs ! j < xs ! k)"
proof -
  from assms obtain x rest where xs: "xs = x # rest" by (cases xs) auto
  have "argmax_from rest 1 0 x < length ([x] @ rest) \<and>
         (\<forall>j<length ([x] @ rest). ([x] @ rest) ! j \<le> ([x] @ rest) ! argmax_from rest 1 0 x) \<and>
         (\<forall>j<argmax_from rest 1 0 x. ([x] @ rest) ! j < ([x] @ rest) ! argmax_from rest 1 0 x)"
    by (rule argmax_from_first_max) auto
  then show ?thesis by (simp add: xs np_argmax_def)
qed

lemma np_argmax_one_hot:
  assumes "k < n"
  shows "np_argmax ((replicate n 0)[k := 1]) = Inr k"
proof -
  let ?A = "(replicate n (0::real))[k := 1]"
  have ne: "?A \<noteq> []" using assms by auto
  from np_argmax_first_max[OF ne] obtain k' where
    k': "np_argmax ?A = Inr k'" "k' < length ?A" "\<forall>j<length ?A. ?A ! j \<le> ?A ! k'"
    by blast
  have "k < length ?A" using assms by simp
  with k'(3) have "?A ! k \<le> ?A ! k'" by blast
  moreover have "?A ! k = 1" using assms by simp
  moreover have "k' \<noteq> k \<Longrightarrow> ?A ! k' = 0" using k'(2) by simp
  ultimately have "k' = k" by (cases "k' = k") simp_all
  with k'(1) show ?thesis by simp
qed

lemma np_argmax_zeros: "1 \<le> n \<Longrightarrow> np_argmax (replicate n 0) = Inr 0"
proof -
  assume n: "1 \<le> n"
  have a: "argmax_from (replicate m 0) i 0 0 = 0" for m i
    by (induction m arbitrary: i) simp_all
  from n obtain m where "n = Suc m" by (cases n) auto
  then show ?thesis by (simp add: np_argmax_def a)
qed

subsection \<open>The policies\<close>

lemma create_greedy_policy_eq:
  "create_greedy_policy nA Q state =
     (case np_argmax (row nA Q state) of
        Inl e \<Rightarrow> Inl e
      | Inr k \<Rightarrow> Inr ((replicate (length (row nA Q state)) 0)[k := 1],
                       Q(state \<mapsto> row nA Q state)))"
  by (simp add: create_greedy_policy_def getitem_eq row_upd_same np_zeros_def Let_def
        split: sum.splits)

text \<open>
  Claim C9. For an action space of size \<open>nA \<ge> 1\<close>, the policy made by
  \<open>create_random_policy\<close> answers, for every observation, the uniform distribution: a
  vector of \<open>nA\<close> entries, each \<open>1 / nA\<close>, which sum to 1. The answer does not depend
  on the observation, and the policy is a function of the observation alone: it reads
  and writes no state.
\<close>

theorem random_policy_uniform:
  assumes "1 \<le> action_space_n env"
  shows "create_random_policy env observation
           = replicate (action_space_n env) (1 / real (action_space_n env)) \<and>
         length (create_random_policy env observation) = action_space_n env \<and>
         (\<forall>a<action_space_n env.
            create_random_policy env observation ! a = 1 / real (action_space_n env)) \<and>
         sum_list (create_random_policy env observation) = 1 \<and>
         create_random_policy env observation = create_random_policy env observation'"
  using assms
  by (simp add: create_random_policy_def np_ones_def Let_def sum_list_replicate)

theorem random_policy_uniform_witness:
  "1 \<le> action_space_n
         \<lparr>action_space_n = 2, reset = (\<lambda>w::unit. (0::nat, w)),
          step = (\<lambda>a w. ((0, 0, True), w))\<rparr> \<and>
   create_random_policy
     \<lparr>action_space_n = 2, reset = (\<lambda>w::unit. (0::nat, w)),
      step = (\<lambda>a w. ((0, 0, True), w))\<rparr> (5::nat) = [1 / 2, 1 / 2]"
  using random_policy_uniform
    [of "\<lparr>action_space_n = 2, reset = (\<lambda>w::unit. (0::nat, w)),
          step = (\<lambda>a w. ((0, 0, True), w))\<rparr>" "5::nat" "5::nat"]
  by (simp add: eval_nat_numeral)

text \<open>
  Claim C3. Whatever the state, if its row of \<^verbatim>\<open>Q\<close> (the stored row, or the zero
  row of a state not yet in the table) is not empty, the greedy target policy answers
  the vector of the row's length that is 1 at one index \<open>k\<close> and 0 elsewhere, where
  \<open>k\<close> is the first maximum of the row: no entry is greater than the one at \<open>k\<close>, and
  every entry before \<open>k\<close> is strictly smaller.
\<close>

theorem greedy_policy_one_hot:
  assumes "row nA Q state \<noteq> []"
  shows "\<exists>k Q'. create_greedy_policy nA Q state
                  = Inr ((replicate (length (row nA Q state)) 0)[k := 1], Q') \<and>
           k < length (row nA Q state) \<and>
           (\<forall>j<length (row nA Q state). row nA Q state ! j \<le> row nA Q state ! k) \<and>
           (\<forall>j<k. row nA Q state ! j < row nA Q state ! k)"
proof -
  from np_argmax_first_max[OF assms] obtain k where
    "np_argmax (row nA Q state) = Inr k" "k < length (row nA Q state)"
    "\<forall>j<length (row nA Q state). row nA Q state ! j \<le> row nA Q state ! k"
    "\<forall>j<k. row nA Q state ! j < row nA Q state ! k"
    by blast
  then show ?thesis by (auto simp: create_greedy_policy_eq)
qed

text \<open>The example of the claim: the row \<^verbatim>\<open>[0.2, 0.5, 0.5]\<close> gives \<^verbatim>\<open>[0, 1, 0]\<close>.\<close>

theorem greedy_policy_one_hot_witness:
  "row 3 (empty_table((7::nat) \<mapsto> [0.2, 0.5, 0.5])) 7 \<noteq> [] \<and>
   (\<exists>Q'. create_greedy_policy 3 (empty_table((7::nat) \<mapsto> [0.2, 0.5, 0.5])) 7
            = Inr ([0, 1, 0], Q'))"
proof -
  have r: "row 3 (empty_table((7::nat) \<mapsto> [0.2, 0.5, 0.5])) 7 = [0.2, 0.5, 0.5]"
    by (simp add: row_upd_same)
  have ne: "row 3 (empty_table((7::nat) \<mapsto> [0.2, 0.5, 0.5])) 7 \<noteq> []"
    unfolding r by simp
  from greedy_policy_one_hot[OF ne, unfolded r] obtain k Q' where
    k: "create_greedy_policy 3 (empty_table((7::nat) \<mapsto> [0.2, 0.5, 0.5])) 7
          = Inr ((replicate (length [0.2, 0.5, 0.5::real]) 0)[k := 1], Q')"
       "k < length [0.2, 0.5, 0.5::real]"
       "\<forall>j<length [0.2, 0.5, 0.5::real]. [0.2, 0.5, 0.5::real] ! j \<le> [0.2, 0.5, 0.5] ! k"
       "\<forall>j<k. [0.2, 0.5, 0.5::real] ! j < [0.2, 0.5, 0.5] ! k"
    by blast
  have "k = 0 \<or> k = 1 \<or> k = 2" using k(2) by (simp add: less_Suc_eq) arith
  then have "k = 1"
  proof (elim disjE)
    assume "k = 0"
    moreover have "1 < length [0.2, 0.5, 0.5::real]" by simp
    ultimately have "[0.2, 0.5, 0.5::real] ! 1 \<le> [0.2, 0.5, 0.5] ! 0" using k(3) by blast
    then show ?thesis by simp
  next
    assume "k = 1"
    then show ?thesis .
  next
    assume "k = 2"
    moreover have "(1::nat) < 2" by simp
    ultimately have "[0.2, 0.5, 0.5::real] ! 1 < [0.2, 0.5, 0.5] ! 2" using k(4) by blast
    then show ?thesis by simp
  qed
  with k(1) have "create_greedy_policy 3 (empty_table((7::nat) \<mapsto> [0.2, 0.5, 0.5])) 7
                    = Inr ([0, 1, 0], Q')"
    by (simp add: eval_nat_numeral)
  with ne show ?thesis by blast
qed

text \<open>
  Claim C10. For an action space of size \<open>nA \<ge> 1\<close> and a state whose row of
  \<^verbatim>\<open>Q\<close> is the all-zero row of a lookup that found nothing (the state is not in the
  table, or its default row was stored and never written), the greedy target policy
  answers the vector that is 1 at index 0 and 0 elsewhere.
\<close>

theorem greedy_policy_unwritten_row:
  assumes "1 \<le> nA" and "row nA Q state = replicate nA 0"
  shows "\<exists>Q'. create_greedy_policy nA Q state = Inr ((replicate nA 0)[0 := 1], Q')"
  using assms by (simp add: create_greedy_policy_eq np_argmax_zeros)

theorem greedy_policy_unwritten_row_witness:
  "(1::nat) \<le> 3 \<and> row 3 empty_table (7::nat) = replicate 3 0 \<and>
   (\<exists>Q'. create_greedy_policy 3 empty_table (7::nat) = Inr ([1, 0, 0], Q'))"
proof -
  have a: "(1::nat) \<le> 3" by simp
  have b: "row 3 empty_table (7::nat) = replicate 3 0" by (rule row_empty_table)
  from greedy_policy_unwritten_row[OF a b] a b show ?thesis
    by (simp add: eval_nat_numeral)
qed

text \<open>
  Claim C4 says that evaluating the greedy target policy at a state that is not in
  \<^verbatim>\<open>Q\<close> leaves the table as it was. The table is a \<^verbatim>\<open>defaultdict\<close>, and
  \<^verbatim>\<open>policy_fn\<close> reads \<^verbatim>\<open>Q[state]\<close>: the read stores the default row. Evaluated on
  the empty table at state 0 with three actions, the policy returns a table that holds
  state 0.
\<close>

theorem greedy_policy_stores_row_counterexample:
  "create_greedy_policy 3 empty_table (0::nat)
     = Inr ([1, 0, 0], empty_table(0 \<mapsto> [0, 0, 0])) \<and>
   empty_table(0 \<mapsto> [0, 0, 0]) \<noteq> (empty_table :: nat table)"
proof
  have a: "np_argmax (row 3 empty_table (0::nat)) = Inr 0"
    by (simp add: row_empty_table np_argmax_zeros)
  have b: "row 3 empty_table (0::nat) = [0, 0, 0]"
    by (simp add: row_empty_table eval_nat_numeral)
  show "create_greedy_policy 3 empty_table (0::nat)
          = Inr ([1, 0, 0], empty_table(0 \<mapsto> [0, 0, 0]))"
    unfolding create_greedy_policy_eq a by (simp add: b)
  have "(empty_table(0 \<mapsto> [0, 0, 0::real])) (0::nat) \<noteq> (empty_table :: nat table) 0"
    by (simp add: empty_table_def)
  then show "empty_table(0 \<mapsto> [0, 0, 0]) \<noteq> (empty_table :: nat table)"
    by metis
qed

subsection \<open>The loop body\<close>

text \<open>
  The first half of the loop body in closed form: the two index checks, the division,
  and the two rows it writes.
\<close>

lemma update_tables_eq:
  "update_tables nA discount_factor (state, action, reward) st =
     (if length (row nA (C_tab st) state) \<le> action then Inl IndexError
      else if row nA (C_tab st) state ! action + W_val st = 0 then Inl ZeroDivision
      else if length (row nA (Q_tab st) state) \<le> action then Inl IndexError
      else Inr \<lparr>G_val = discount_factor * G_val st + reward,
                W_val = W_val st,
                C_tab = (C_tab st)(state \<mapsto> (row nA (C_tab st) state)
                          [action := row nA (C_tab st) state ! action + W_val st]),
                Q_tab = (Q_tab st)(state \<mapsto> (row nA (Q_tab st) state)
                          [action := row nA (Q_tab st) state ! action
                             + (W_val st / (row nA (C_tab st) state ! action + W_val st))
                               * (discount_factor * G_val st + reward
                                  - row nA (Q_tab st) state ! action)])\<rparr>)"
  by (simp add: update_tables_def getitem_eq Let_def)

lemma update_tables_Inr:
  assumes "update_tables nA discount_factor (state, action, reward) st = Inr st1"
  shows "action < length (row nA (C_tab st) state)"
    and "action < length (row nA (Q_tab st) state)"
    and "row nA (C_tab st) state ! action + W_val st \<noteq> 0"
    and "G_val st1 = discount_factor * G_val st + reward"
    and "W_val st1 = W_val st"
    and "C_tab st1 = (C_tab st)(state \<mapsto> (row nA (C_tab st) state)
                          [action := row nA (C_tab st) state ! action + W_val st])"
    and "Q_tab st1 = (Q_tab st)(state \<mapsto> (row nA (Q_tab st) state)
                          [action := row nA (Q_tab st) state ! action
                             + (W_val st / (row nA (C_tab st) state ! action + W_val st))
                               * (discount_factor * G_val st + reward
                                  - row nA (Q_tab st) state ! action)])"
  using assms by (auto simp: update_tables_eq split: if_splits)

lemma greedy_after_update:
  assumes "update_tables nA discount_factor (state, action, reward) st = Inr st1"
  shows "\<exists>k. np_argmax (row nA (Q_tab st1) state) = Inr k \<and>
             create_greedy_policy nA (Q_tab st1) state
               = Inr ((replicate (length (row nA (Q_tab st1) state)) 0)[k := 1], Q_tab st1) \<and>
             np_argmax ((replicate (length (row nA (Q_tab st1) state)) 0)[k := 1]) = Inr k"
proof -
  note u = update_tables_Inr[OF assms]
  have stored: "Q_tab st1 state = Some (row nA (Q_tab st1) state)"
    by (simp add: u(7) row_upd_same)
  then have same: "(Q_tab st1)(state \<mapsto> row nA (Q_tab st1) state) = Q_tab st1"
    by (rule map_upd_triv)
  have "row nA (Q_tab st1) state \<noteq> []"
    using u(2) by (auto simp: u(7) row_upd_same)
  from np_argmax_first_max[OF this] obtain k where
    k: "np_argmax (row nA (Q_tab st1) state) = Inr k" "k < length (row nA (Q_tab st1) state)"
    by blast
  show ?thesis
    using k by (auto simp: create_greedy_policy_eq same np_argmax_one_hot)
qed

lemma update_step_eq:
  assumes "update_tables nA discount_factor (state, action, reward) st = Inr st1"
  shows "\<exists>k. np_argmax (row nA (Q_tab st1) state) = Inr k \<and>
          update_step nA behavior_policy discount_factor (state, action, reward) st =
            (if action \<noteq> k then Inr (True, st1)
             else if length (behavior_policy state) \<le> action then Inl IndexError
             else if behavior_policy state ! action = 0 then Inl ZeroDivision
             else Inr (False, st1\<lparr>W_val := W_val st1 / (behavior_policy state ! action)\<rparr>))"
proof -
  from greedy_after_update[OF assms] obtain k where
    k: "np_argmax (row nA (Q_tab st1) state) = Inr k"
      "create_greedy_policy nA (Q_tab st1) state
               = Inr ((replicate (length (row nA (Q_tab st1) state)) 0)[k := 1], Q_tab st1)"
      "np_argmax ((replicate (length (row nA (Q_tab st1) state)) 0)[k := 1]) = Inr k"
    by blast
  show ?thesis
    by (rule exI[of _ k]) (simp add: k update_step_def assms Let_def)
qed

lemma update_step_Inl:
  "update_tables nA discount_factor tr st = Inl e \<Longrightarrow>
   update_step nA behavior_policy discount_factor tr st = Inl e"
  by (cases tr) (simp add: update_step_def)


lemma update_step_Inr:
  assumes "update_step nA behavior_policy discount_factor (state, action, reward) st = Inr (brk, st')"
  shows "\<exists>st1. update_tables nA discount_factor (state, action, reward) st = Inr st1 \<and>
           G_val st' = G_val st1 \<and> C_tab st' = C_tab st1 \<and> Q_tab st' = Q_tab st1 \<and>
           (if brk then W_val st' = W_val st1
            else action < length (behavior_policy state) \<and>
                 behavior_policy state ! action \<noteq> 0 \<and>
                 W_val st' = W_val st1 / (behavior_policy state ! action))"
proof (cases "update_tables nA discount_factor (state, action, reward) st")
  case (Inl e)
  from update_step_Inl[OF this] assms show ?thesis by simp
next
  case (Inr st1)
  from update_step_eq[OF Inr, of behavior_policy] assms show ?thesis
    by (auto simp: Inr split: if_splits)
qed

lemma cell_upd:
  "cell nA (T(state \<mapsto> (row nA T state)[action := v])) s a
     = (if s = state \<and> a = action then (row nA T state)[action := v] ! action
        else cell nA T s a)"
  by (cases "s = state") (auto simp: cell_def row_upd_same row_upd_other)

text \<open>
  Claim C4, as amended. Evaluating the greedy target policy at a state that is in
  \<^verbatim>\<open>Q\<close> leaves the table as it was. At a state that is not in \<^verbatim>\<open>Q\<close> it stores the
  all-zero row of length \<open>nA\<close> for that state and changes nothing else, so the row a
  reader gets for any state is the same before and after. In the control loop the policy
  is evaluated only on the table the backward update has just written at that state, and
  there the evaluation returns the table unchanged.
\<close>

theorem greedy_policy_table_effect:
  "(create_greedy_policy nA Q state = Inr (A, Q') \<longrightarrow>
      Q' = (case Q state of None \<Rightarrow> Q(state \<mapsto> replicate nA 0) | Some r \<Rightarrow> Q) \<and>
      (\<forall>s. row nA Q' s = row nA Q s)) \<and>
   (update_tables nA discount_factor (state1, action, reward) st = Inr st1 \<longrightarrow>
    create_greedy_policy nA (Q_tab st1) state1 = Inr (A1, Q2) \<longrightarrow>
      Q2 = Q_tab st1)"
proof (intro impI conjI allI)
  assume a: "create_greedy_policy nA Q state = Inr (A, Q')"
  then have Q': "Q' = Q(state \<mapsto> row nA Q state)"
    by (auto simp: create_greedy_policy_eq split: sum.splits)
  show "Q' = (case Q state of None \<Rightarrow> Q(state \<mapsto> replicate nA 0) | Some r \<Rightarrow> Q)"
    by (auto simp: Q' row_None row_Some split: option.splits)
  show "row nA Q' s = row nA Q s" for s
    by (simp add: Q' row_stored)
next
  assume "update_tables nA discount_factor (state1, action, reward) st = Inr st1"
    and "create_greedy_policy nA (Q_tab st1) state1 = Inr (A1, Q2)"
  with greedy_after_update[of nA discount_factor state1 action reward st st1]
  show "Q2 = Q_tab st1" by auto
qed

theorem greedy_policy_table_effect_witness:
  "create_greedy_policy 2 empty_table (0::nat) = Inr ([1, 0], empty_table(0 \<mapsto> [0, 0])) \<and>
   empty_table((0::nat) \<mapsto> [0, 0])
     = (case (empty_table :: nat table) 0 of
          None \<Rightarrow> empty_table(0 \<mapsto> replicate 2 0) | Some r \<Rightarrow> empty_table) \<and>
   row 2 (empty_table((0::nat) \<mapsto> [0, 0])) 5 = row 2 empty_table (5::nat) \<and>
   update_tables 2 1 (0::nat, 1, 1)
     \<lparr>G_val = 0, W_val = 1, C_tab = empty_table, Q_tab = empty_table\<rparr>
     = Inr \<lparr>G_val = 1, W_val = 1, C_tab = empty_table(0 \<mapsto> [0, 1]),
            Q_tab = empty_table(0 \<mapsto> [0, 1])\<rparr> \<and>
   create_greedy_policy 2 (empty_table((0::nat) \<mapsto> [0, 1])) 0
     = Inr ([0, 1], empty_table(0 \<mapsto> [0, 1]))"
proof -
  have r2: "replicate 2 (0::real) = [0, 0]" by (simp add: eval_nat_numeral)
  have h1: "create_greedy_policy 2 empty_table (0::nat)
              = Inr ([1, 0], empty_table(0 \<mapsto> [0, 0]))"
    by (simp add: create_greedy_policy_eq row_empty_table r2 np_argmax_def)
  have h2: "update_tables 2 1 (0::nat, 1, 1)
     \<lparr>G_val = 0, W_val = 1, C_tab = empty_table, Q_tab = empty_table\<rparr>
     = Inr \<lparr>G_val = 1, W_val = 1, C_tab = empty_table(0 \<mapsto> [0, 1]),
            Q_tab = empty_table(0 \<mapsto> [0, 1])\<rparr>"
    by (simp add: update_tables_eq row_empty_table r2)
  have h3: "create_greedy_policy 2 (empty_table((0::nat) \<mapsto> [0, 1])) 0
     = Inr ([0, 1], empty_table(0 \<mapsto> [0, 1]))"
    by (simp add: create_greedy_policy_eq row_upd_same np_argmax_def)
  note t = greedy_policy_table_effect
    [where nA = 2 and Q = "empty_table :: nat table" and state = 0 and A = "[1, 0]"
       and Q' = "empty_table(0 \<mapsto> [0, 0])" and discount_factor = 1
       and ?state1.0 = "0::nat" and action = 1 and reward = 1
       and st = "\<lparr>G_val = 0, W_val = 1, C_tab = empty_table, Q_tab = empty_table\<rparr>"
       and ?st1.0 = "\<lparr>G_val = 1, W_val = 1, C_tab = empty_table(0 \<mapsto> [0, 1]),
                      Q_tab = empty_table(0 \<mapsto> [0, 1])\<rparr>"
       and ?A1.0 = "[0, 1]" and ?Q2.0 = "empty_table(0 \<mapsto> [0, 1])"]
  note c = conjunct1[OF t, THEN mp, OF h1]
  note c1 = conjunct1[OF c] and c2 = spec[OF conjunct2[OF c], of 5]
  from c1 c2 h1 h2 h3 show ?thesis by (intro conjI) simp_all
qed

text \<open>
  Claim C2. One run of the update with weight \<^verbatim>\<open>W = 1\<close> on a pair \<open>(state, action)\<close>
  whose cells of \<^verbatim>\<open>C\<close> and \<^verbatim>\<open>Q\<close> are both 0 succeeds, leaves 1 in the cell of
  \<^verbatim>\<open>C\<close>, and leaves in the cell of \<^verbatim>\<open>Q\<close> exactly the return \<^verbatim>\<open>G\<close> computed in
  that step. The example: from two empty tables, the backward pass of the one-step
  episode \<^verbatim>\<open>[(s0, a0, 1.0)]\<close> with discount factor 1 ends with 1 in both cells, for
  an action within the action space to which the behaviour policy gives a probability
  other than 0.
\<close>

theorem first_visit_sets_Q_to_G:
  "(W_val st = 1 \<and>
    action < length (row nA (C_tab st) state) \<and> action < length (row nA (Q_tab st) state) \<and>
    cell nA (C_tab st) state action = 0 \<and> cell nA (Q_tab st) state action = 0 \<longrightarrow>
      (\<exists>st'. update_tables nA discount_factor (state, action, reward) st = Inr st' \<and>
             G_val st' = discount_factor * G_val st + reward \<and>
             cell nA (C_tab st') state action = 1 \<and>
             cell nA (Q_tab st') state action = G_val st')) \<and>
   (a0 < nA \<and> a0 < length (behavior_policy s0) \<and> behavior_policy s0 ! a0 \<noteq> 0 \<longrightarrow>
      (\<exists>st'. process_episode nA behavior_policy 1 [(s0, a0, 1)] empty_table empty_table = Inr st' \<and>
             cell nA (C_tab st') s0 a0 = 1 \<and> cell nA (Q_tab st') s0 a0 = 1))"
proof (intro conjI impI)
  assume h: "W_val st = 1 \<and>
    action < length (row nA (C_tab st) state) \<and> action < length (row nA (Q_tab st) state) \<and>
    cell nA (C_tab st) state action = 0 \<and> cell nA (Q_tab st) state action = 0"
  then show "\<exists>st'. update_tables nA discount_factor (state, action, reward) st = Inr st' \<and>
             G_val st' = discount_factor * G_val st + reward \<and>
             cell nA (C_tab st') state action = 1 \<and>
             cell nA (Q_tab st') state action = G_val st'"
    by (simp add: update_tables_eq cell_def row_upd_same)
next
  assume h: "a0 < nA \<and> a0 < length (behavior_policy s0) \<and> behavior_policy s0 ! a0 \<noteq> 0"
  let ?st = "\<lparr>G_val = 0, W_val = 1, C_tab = empty_table, Q_tab = (empty_table :: 'b table)\<rparr>"
  let ?st1 = "\<lparr>G_val = 1, W_val = 1,
               C_tab = empty_table(s0 \<mapsto> (replicate nA 0)[a0 := 1]),
               Q_tab = (empty_table :: 'b table)(s0 \<mapsto> (replicate nA 0)[a0 := 1])\<rparr>"
  have u: "update_tables nA 1 (s0, a0, 1) ?st = Inr ?st1"
    using h by (simp add: update_tables_eq row_empty_table)
  from update_step_eq[OF u, of behavior_policy] obtain k where
    k: "np_argmax (row nA (Q_tab ?st1) s0) = Inr k"
       "update_step nA behavior_policy 1 (s0, a0, 1) ?st =
            (if a0 \<noteq> k then Inr (True, ?st1)
             else if length (behavior_policy s0) \<le> a0 then Inl IndexError
             else if behavior_policy s0 ! a0 = 0 then Inl ZeroDivision
             else Inr (False, ?st1\<lparr>W_val := W_val ?st1 / (behavior_policy s0 ! a0)\<rparr>))"
    by blast
  have "\<exists>brk st'. update_step nA behavior_policy 1 (s0, a0, 1) ?st = Inr (brk, st') \<and>
          C_tab st' = C_tab ?st1 \<and> Q_tab st' = Q_tab ?st1"
  proof (cases "a0 = k")
    case True
    with h k(2) have "update_step nA behavior_policy 1 (s0, a0, 1) ?st
        = Inr (False, ?st1\<lparr>W_val := W_val ?st1 / (behavior_policy s0 ! a0)\<rparr>)"
      by simp
    then show ?thesis by auto
  next
    case False
    with k(2) have "update_step nA behavior_policy 1 (s0, a0, 1) ?st = Inr (True, ?st1)"
      by simp
    then show ?thesis by auto
  qed
  then obtain brk st' where
    s: "update_step nA behavior_policy 1 (s0, a0, 1) ?st = Inr (brk, st')"
       "C_tab st' = C_tab ?st1" "Q_tab st' = Q_tab ?st1"
    by blast
  have "process_episode nA behavior_policy 1 [(s0, a0, 1)] empty_table empty_table = Inr st'"
    by (simp add: process_episode_def s(1))
  moreover have "cell nA (C_tab st') s0 a0 = 1" "cell nA (Q_tab st') s0 a0 = 1"
    using h by (simp_all add: s cell_def row_upd_same)
  ultimately show "\<exists>st'. process_episode nA behavior_policy 1 [(s0, a0, 1)] empty_table empty_table = Inr st' \<and>
             cell nA (C_tab st') s0 a0 = 1 \<and> cell nA (Q_tab st') s0 a0 = 1"
    by blast
qed

theorem first_visit_sets_Q_to_G_witness:
  "W_val \<lparr>G_val = 0, W_val = 1, C_tab = empty_table, Q_tab = (empty_table :: nat table)\<rparr> = 1 \<and>
   1 < length (row 2 (empty_table :: nat table) 0) \<and>
   cell 2 (empty_table :: nat table) 0 1 = 0 \<and>
   (\<exists>st'. update_tables 2 1 (0::nat, 1, 1)
             \<lparr>G_val = 0, W_val = 1, C_tab = empty_table, Q_tab = empty_table\<rparr> = Inr st' \<and>
          G_val st' = 1 \<and> cell 2 (C_tab st') 0 1 = 1 \<and> cell 2 (Q_tab st') 0 1 = 1) \<and>
   (1::nat) < 2 \<and> 1 < length [1 / 2, 1 / 2 :: real] \<and> [1 / 2, 1 / 2 :: real] ! 1 \<noteq> 0 \<and>
   (\<exists>st'. process_episode 2 (\<lambda>s. [1 / 2, 1 / 2]) 1 [(0::nat, 1, 1)] empty_table empty_table
             = Inr st' \<and>
          cell 2 (C_tab st') 0 1 = 1 \<and> cell 2 (Q_tab st') 0 1 = 1)"
proof -
  have r2: "replicate 2 (0::real) = [0, 0]" by (simp add: eval_nat_numeral)
  have a: "1 < length (row 2 (empty_table :: nat table) 0)"
    by (simp add: row_empty_table)
  have b: "cell 2 (empty_table :: nat table) 0 1 = 0"
    by (simp add: cell_def row_empty_table)
  have c: "(1::nat) < 2 \<and> 1 < length [1 / 2, 1 / 2 :: real] \<and> [1 / 2, 1 / 2 :: real] ! 1 \<noteq> 0"
    by simp
  have w: "W_val \<lparr>G_val = 0, W_val = 1, C_tab = empty_table,
                   Q_tab = (empty_table :: nat table)\<rparr> = 1"
    by simp
  from first_visit_sets_Q_to_G
    [of "\<lparr>G_val = 0, W_val = 1, C_tab = empty_table, Q_tab = (empty_table :: nat table)\<rparr>"
        1 2 0 1 1 1 "\<lambda>s. [1 / 2, 1 / 2]" 0]
    a b c
  have "(\<exists>st'. update_tables 2 1 (0::nat, 1, 1)
             \<lparr>G_val = 0, W_val = 1, C_tab = empty_table, Q_tab = empty_table\<rparr> = Inr st' \<and>
          G_val st' = 1 \<and> cell 2 (C_tab st') 0 1 = 1 \<and> cell 2 (Q_tab st') 0 1 = 1) \<and>
        (\<exists>st'. process_episode 2 (\<lambda>s. [1 / 2, 1 / 2]) 1 [(0::nat, 1, 1)]
                  empty_table empty_table = Inr st' \<and>
          cell 2 (C_tab st') 0 1 = 1 \<and> cell 2 (Q_tab st') 0 1 = 1)"
    by auto
  with w a b c show ?thesis by blast
qed

text \<open>
  Claim C1. If, after the update of \<^verbatim>\<open>C\<close> and \<^verbatim>\<open>Q\<close> for a step, the recorded action
  is not the argmax of the target policy at that state on the updated table, the reverse
  traversal ends there: its result is the state the update left, whatever the earlier
  entries of the trajectory are. When this happens at the latest step of an episode, the
  backward pass of the whole episode has written one cell of \<^verbatim>\<open>C\<close> and one cell of
  \<^verbatim>\<open>Q\<close>, those of \<open>(state, action)\<close>; every other cell reads as before.
\<close>

theorem mismatch_stops_traversal:
  assumes "update_tables nA discount_factor (state, action, reward) st = Inr st1"
    and "create_greedy_policy nA (Q_tab st1) state = Inr (A, Q2)"
    and "np_argmax A = Inr greedy"
    and "action \<noteq> greedy"
  shows "backward nA behavior_policy discount_factor ((state, action, reward) # earlier) st
           = Inr st1 \<and>
         (st = \<lparr>G_val = 0, W_val = 1, C_tab = C0, Q_tab = Q0\<rparr> \<longrightarrow>
            process_episode nA behavior_policy discount_factor
              (episode @ [(state, action, reward)]) C0 Q0 = Inr st1) \<and>
         C_tab st1 = (C_tab st)(state \<mapsto> (row nA (C_tab st) state)
                        [action := cell nA (C_tab st) state action + W_val st]) \<and>
         Q_tab st1 = (Q_tab st)(state \<mapsto> (row nA (Q_tab st) state)
                        [action := cell nA (Q_tab st) state action
                           + (W_val st / (cell nA (C_tab st) state action + W_val st))
                             * (discount_factor * G_val st + reward
                                - cell nA (Q_tab st) state action)]) \<and>
         (\<forall>s a. (s, a) \<noteq> (state, action) \<longrightarrow>
                cell nA (C_tab st1) s a = cell nA (C_tab st) s a \<and>
                cell nA (Q_tab st1) s a = cell nA (Q_tab st) s a)"
proof -
  note u = update_tables_Inr[OF assms(1)]
  from greedy_after_update[OF assms(1)] assms(2,3) have
    "np_argmax (row nA (Q_tab st1) state) = Inr greedy"
    by auto
  with update_step_eq[OF assms(1), of behavior_policy] assms(4) have
    step: "update_step nA behavior_policy discount_factor (state, action, reward) st
             = Inr (True, st1)"
    by auto
  have b: "backward nA behavior_policy discount_factor ((state, action, reward) # earlier') st
             = Inr st1" for earlier'
    by (simp add: step)
  have "process_episode nA behavior_policy discount_factor
          (episode @ [(state, action, reward)]) C0 Q0 = Inr st1"
    if "st = \<lparr>G_val = 0, W_val = 1, C_tab = C0, Q_tab = Q0\<rparr>"
    unfolding process_episode_def using b[of "rev episode"] that by simp
  moreover have "cell nA (C_tab st1) s a = cell nA (C_tab st) s a \<and>
                 cell nA (Q_tab st1) s a = cell nA (Q_tab st) s a"
    if "(s, a) \<noteq> (state, action)" for s a
    using that unfolding u(6) u(7) cell_upd by auto
  ultimately show ?thesis
    using b[of earlier] u(6) u(7) by (simp add: cell_def)
qed

theorem mismatch_stops_traversal_witness:
  "update_tables 2 1 (0::nat, 1, 1)
     \<lparr>G_val = 0, W_val = 1, C_tab = empty_table, Q_tab = empty_table(0 \<mapsto> [5, 0])\<rparr>
     = Inr \<lparr>G_val = 1, W_val = 1, C_tab = empty_table(0 \<mapsto> [0, 1]),
            Q_tab = empty_table(0 \<mapsto> [5, 1])\<rparr> \<and>
   create_greedy_policy 2 (empty_table((0::nat) \<mapsto> [5, 1])) 0
     = Inr ([1, 0], empty_table(0 \<mapsto> [5, 1])) \<and>
   np_argmax [1, 0] = Inr 0 \<and> (1::nat) \<noteq> 0 \<and>
   backward 2 (\<lambda>s. [1 / 2, 1 / 2]) 1 [(0::nat, 1, 1), (0, 0, 7), (4, 1, 2)]
     \<lparr>G_val = 0, W_val = 1, C_tab = empty_table, Q_tab = empty_table(0 \<mapsto> [5, 0])\<rparr>
     = Inr \<lparr>G_val = 1, W_val = 1, C_tab = empty_table(0 \<mapsto> [0, 1]),
            Q_tab = empty_table(0 \<mapsto> [5, 1])\<rparr> \<and>
   process_episode 2 (\<lambda>s. [1 / 2, 1 / 2]) 1 [(4::nat, 1, 2), (0, 0, 7), (0, 1, 1)]
     empty_table (empty_table(0 \<mapsto> [5, 0]))
     = Inr \<lparr>G_val = 1, W_val = 1, C_tab = empty_table(0 \<mapsto> [0, 1]),
            Q_tab = empty_table(0 \<mapsto> [5, 1])\<rparr>"
proof -
  have r2: "replicate 2 (0::real) = [0, 0]" by (simp add: eval_nat_numeral)
  have h1: "update_tables 2 1 (0::nat, 1, 1)
     \<lparr>G_val = 0, W_val = 1, C_tab = empty_table, Q_tab = empty_table(0 \<mapsto> [5, 0])\<rparr>
     = Inr \<lparr>G_val = 1, W_val = 1, C_tab = empty_table(0 \<mapsto> [0, 1]),
            Q_tab = empty_table(0 \<mapsto> [5, 1])\<rparr>"
    by (simp add: update_tables_eq row_empty_table row_upd_same r2)
  have h2: "create_greedy_policy 2
              (Q_tab \<lparr>G_val = 1, W_val = 1, C_tab = empty_table((0::nat) \<mapsto> [0, 1]),
                      Q_tab = empty_table(0 \<mapsto> [5, 1])\<rparr>) 0
     = Inr ([1, 0], empty_table(0 \<mapsto> [5, 1]))"
    by (simp add: create_greedy_policy_eq row_upd_same np_argmax_def)
  have h3: "np_argmax [1, 0] = Inr 0" by (simp add: np_argmax_def)
  have h4: "(1::nat) \<noteq> 0" by simp
  from mismatch_stops_traversal[OF h1 h2 h3 h4,
      of "\<lambda>s. [1 / 2, 1 / 2]" "[(0, 0, 7), (4, 1, 2)]" "empty_table"
         "empty_table(0 \<mapsto> [5, 0])" "[(4, 1, 2), (0, 0, 7)]"]
    h1 h2 h3
  show ?thesis by simp
qed

subsection \<open>Rounding to \<^verbatim>\<open>float64\<close>\<close>

text \<open>
  \<open>round_half_even\<close> is within one half of its argument and takes the even integer on
  a tie; \<open>f64_exponent\<close> is the binary exponent, bounded below by \<open>- 1022\<close>. With
  the exponent known, \<open>f64_round\<close> is computed by \<open>f64_round_normal\<close>.
\<close>

lemma round_half_even_nearest: "\<bar>of_int (round_half_even y) - y\<bar> \<le> 1 / 2"
proof -
  have b: "of_int \<lfloor>y\<rfloor> \<le> y" "y < of_int \<lfloor>y\<rfloor> + 1" by linarith+
  show ?thesis
  proof (cases "y - of_int \<lfloor>y\<rfloor> < 1 / 2")
    case True
    with b show ?thesis by (simp add: round_half_even_def Let_def)
  next
    case False
    with b have "\<bar>of_int (\<lfloor>y\<rfloor> + 1) - y\<bar> \<le> 1 / 2" by simp
    moreover from False b have "\<bar>of_int \<lfloor>y\<rfloor> - y\<bar> \<le> 1 / 2"
      if "\<not> 1 / 2 < y - of_int \<lfloor>y\<rfloor>"
      using that by simp
    ultimately show ?thesis
      using False by (simp add: round_half_even_def Let_def)
  qed
qed

lemma round_half_even_tie: "y - of_int \<lfloor>y\<rfloor> = 1 / 2 \<Longrightarrow> even (round_half_even y)"
  by (simp add: round_half_even_def Let_def)

lemma round_half_even_of_int: "round_half_even (of_int k) = k"
  by (simp add: round_half_even_def)

declare flog2.simps [simp del]

lemma flog2_bounds: "0 < n \<Longrightarrow> 2 ^ flog2 n \<le> n \<and> n < 2 ^ Suc (flog2 n)"
proof (induction n rule: flog2.induct)
  case (1 n)
  show ?case
  proof (cases "n < 2")
    case True
    with "1.prems" have "n = 1" by simp
    then show ?thesis by (simp add: flog2.simps)
  next
    case False
    then have "0 < n div 2" by simp
    from "1.IH"[OF False this] have
      "2 ^ flog2 (n div 2) \<le> n div 2" "n div 2 < 2 ^ Suc (flog2 (n div 2))"
      by simp_all
    moreover have "flog2 n = Suc (flog2 (n div 2))"
      using False by (subst flog2.simps) simp
    ultimately show ?thesis by simp linarith
  qed
qed

lemma flog2_unique:
  assumes "2 ^ k \<le> n" "n < 2 ^ Suc k"
  shows "flog2 n = k"
proof -
  have n: "0 < n" using assms(1) by (metis less_le_trans zero_less_numeral zero_less_power)
  note b = flog2_bounds[OF n]
  have "(2::nat) ^ k < 2 ^ Suc (flog2 n)" using assms(1) b by linarith
  then have "k < Suc (flog2 n)" by (simp only: power_strict_increasing_iff one_less_numeral_iff semiring_norm)
  moreover have "(2::nat) ^ flog2 n < 2 ^ Suc k" using assms(2) b by linarith
  then have "flog2 n < Suc k" by (simp only: power_strict_increasing_iff one_less_numeral_iff semiring_norm)
  ultimately show ?thesis by simp
qed

lemma flog2_0: "flog2 0 = 0"
  by (simp add: flog2.simps)

lemma f64_exponent_normal:
  assumes "2 powi e \<le> \<bar>x\<bar>" "\<bar>x\<bar> < 2 powi (e + 1)" "- 1022 \<le> e"
  shows "f64_exponent x = e"
proof -
  define k where "k = nat (e + 1022)"
  have e: "e = int k - 1022" using assms(3) by (simp add: k_def)
  have p: "(2::real) powi (int k - 1022) * 2 ^ 1022 = 2 ^ k"
    by (simp add: power_int_diff)
  have p1: "(2::real) powi (int k - 1022 + 1) * 2 ^ 1022 = 2 ^ Suc k"
    by (simp add: power_int_diff power_int_add)
  have lo: "(2::real) ^ k \<le> \<bar>x\<bar> * 2 ^ 1022"
    using assms(1) unfolding e p[symmetric] by simp
  have hi: "\<bar>x\<bar> * 2 ^ 1022 < (2::real) ^ Suc k"
    using assms(2) unfolding e p1[symmetric] by simp
  let ?n = "nat \<lfloor>\<bar>x\<bar> * 2 ^ 1022\<rfloor>"
  have "real_of_int (2 ^ k) \<le> \<bar>x\<bar> * 2 ^ 1022" using lo by simp
  then have "(2::int) ^ k \<le> \<lfloor>\<bar>x\<bar> * 2 ^ 1022\<rfloor>" by (simp only: le_floor_iff)
  then have a: "2 ^ k \<le> ?n" by (simp add: le_nat_iff)
  have "\<bar>x\<bar> * 2 ^ 1022 < real_of_int (2 ^ Suc k)" using hi by simp
  then have "\<lfloor>\<bar>x\<bar> * 2 ^ 1022\<rfloor> < (2::int) ^ Suc k" by (simp only: floor_less_iff)
  then have b: "?n < 2 ^ Suc k" by (simp add: nat_less_iff)
  from flog2_unique[OF a b] show ?thesis by (simp add: f64_exponent_def e)
qed

lemma f64_exponent_subnormal:
  assumes "\<bar>x\<bar> < 2 powi (- 1022)"
  shows "f64_exponent x = - 1022"
proof -
  have "\<bar>x\<bar> * 2 ^ 1022 < 2 powi (- 1022) * 2 ^ 1022"
    using assms by simp
  also have "\<dots> = (1::real)" by (simp add: power_int_minus)
  finally have "\<lfloor>\<bar>x\<bar> * 2 ^ 1022\<rfloor> < 1" by (simp add: floor_less_iff)
  then have "nat \<lfloor>\<bar>x\<bar> * 2 ^ 1022\<rfloor> = 0" by simp
  then show ?thesis by (simp add: f64_exponent_def flog2_0)
qed

lemma f64_round_0: "f64_round 0 = Inr 0"
  by (simp add: f64_round_def round_half_even_def Let_def)

lemma f64_round_normal:
  assumes "2 powi e \<le> \<bar>x\<bar>" "\<bar>x\<bar> < 2 powi (e + 1)" "- 1022 \<le> e"
  shows "f64_round x =
           (if (2::real) ^ 1024
                 \<le> \<bar>2 powi (e - 52) * of_int (round_half_even (x / 2 powi (e - 52)))\<bar>
            then Inl Overflow
            else Inr (2 powi (e - 52) * of_int (round_half_even (x / 2 powi (e - 52)))))"
  unfolding f64_round_def f64_exponent_normal[OF assms] Let_def ..


lemma f64_round_small:
  "f64_round 1 = Inr 1" "f64_round 2 = Inr 2" "f64_round 3 = Inr 3"
  "f64_round 4 = Inr 4" "f64_round 6 = Inr 6"
  by (simp_all add: f64_round_normal[where e = 0] f64_round_normal[where e = 1]
        f64_round_normal[where e = 2] round_half_even_def power_int_minus)

lemma f64_round_large:
  "f64_round (- 10000000000000000) = Inr (- 10000000000000000)"
  "f64_round (- 9999999999999999) = Inr (- 10000000000000000)"
  by (simp_all add: f64_round_normal[where e = 53] round_half_even_def)

subsection \<open>The loop body with rounded arithmetic\<close>

text \<open>With a rounding function that changes nothing, the two readings agree.\<close>

lemma update_tables_rnd_exact:
  "update_tables_rnd Inr nA discount_factor tr st = update_tables nA discount_factor tr st"
  by (simp add: update_tables_rnd_def update_tables_def return_rnd_def Let_def
        split: prod.splits)

lemma update_step_rnd_exact:
  "update_step_rnd Inr nA behavior_policy discount_factor tr st
     = update_step nA behavior_policy discount_factor tr st"
  by (simp add: update_step_rnd_def update_step_def update_tables_rnd_exact Let_def
        split: prod.splits sum.splits)

lemma backward_rnd_exact:
  "backward_rnd Inr nA behavior_policy discount_factor trs st
     = backward nA behavior_policy discount_factor trs st"
  by (induction trs arbitrary: st) (simp_all add: update_step_rnd_exact split: sum.splits)

lemma update_tables_rnd_return:
  assumes "update_tables_rnd rnd nA discount_factor (state, action, reward) st = Inr st'"
  shows "return_rnd rnd discount_factor (G_val st) reward = Inr (G_val st')"
  using assms
  by (auto simp: update_tables_rnd_def Let_def split: sum.splits prod.splits if_splits)

lemma update_step_rnd_return:
  assumes "update_step_rnd rnd nA behavior_policy discount_factor (state, action, reward) st
             = Inr (brk, st')"
  shows "return_rnd rnd discount_factor (G_val st) reward = Inr (G_val st')"
proof -
  from assms obtain st1 where
    u: "update_tables_rnd rnd nA discount_factor (state, action, reward) st = Inr st1"
    and g: "G_val st' = G_val st1"
    by (auto simp: update_step_rnd_def Let_def split: sum.splits prod.splits if_splits)
  from update_tables_rnd_return[OF u] g show ?thesis by simp
qed

text \<open>
  Claim C7 says that, with discount factor 1, the return computed at the earliest step
  of a three-step episode that no step breaks is \<open>r1 + r2 + r3\<close>. The loop adds in
  \<^verbatim>\<open>float64\<close>, from the last reward to the first, and every sum is rounded. Take the
  rewards \<^verbatim>\<open>1e16, -1e16, 1.0\<close>, one action, and the behaviour policy that always takes
  it. No step breaks; \<^verbatim>\<open>1.0 + -1e16\<close> lies half way between two \<^verbatim>\<open>float64\<close> values
  and is rounded to \<^verbatim>\<open>-1e16\<close>; the return at the earliest step is 0, and the sum of
  the rewards is 1.
\<close>

theorem f64_return_three_steps_counterexample:
  "update_step_rnd f64_round 1 (\<lambda>s. [1]) 1 (3::nat, 0, 1)
     \<lparr>G_val = 0, W_val = 1, C_tab = empty_table, Q_tab = empty_table\<rparr>
     = Inr (False, \<lparr>G_val = 1, W_val = 1, C_tab = empty_table(3 \<mapsto> [1]),
                     Q_tab = empty_table(3 \<mapsto> [1])\<rparr>) \<and>
   update_step_rnd f64_round 1 (\<lambda>s. [1]) 1 (2::nat, 0, - (10 ^ 16))
     \<lparr>G_val = 1, W_val = 1, C_tab = empty_table(3 \<mapsto> [1]),
      Q_tab = empty_table(3 \<mapsto> [1])\<rparr>
     = Inr (False, \<lparr>G_val = - (10 ^ 16), W_val = 1,
                     C_tab = empty_table(3 \<mapsto> [1], 2 \<mapsto> [1]),
                     Q_tab = empty_table(3 \<mapsto> [1], 2 \<mapsto> [- (10 ^ 16)])\<rparr>) \<and>
   update_step_rnd f64_round 1 (\<lambda>s. [1]) 1 (1::nat, 0, 10 ^ 16)
     \<lparr>G_val = - (10 ^ 16), W_val = 1,
      C_tab = empty_table(3 \<mapsto> [1], 2 \<mapsto> [1]),
      Q_tab = empty_table(3 \<mapsto> [1], 2 \<mapsto> [- (10 ^ 16)])\<rparr>
     = Inr (False, \<lparr>G_val = 0, W_val = 1,
                     C_tab = empty_table(3 \<mapsto> [1], 2 \<mapsto> [1], 1 \<mapsto> [1]),
                     Q_tab = empty_table(3 \<mapsto> [1], 2 \<mapsto> [- (10 ^ 16)], 1 \<mapsto> [0])\<rparr>) \<and>
   process_episode_rnd f64_round 1 (\<lambda>s. [1]) 1
     [(1::nat, 0, 10 ^ 16), (2, 0, - (10 ^ 16)), (3, 0, 1)] empty_table empty_table
     = Inr \<lparr>G_val = 0, W_val = 1,
            C_tab = empty_table(3 \<mapsto> [1], 2 \<mapsto> [1], 1 \<mapsto> [1]),
            Q_tab = empty_table(3 \<mapsto> [1], 2 \<mapsto> [- (10 ^ 16)], 1 \<mapsto> [0])\<rparr> \<and>
   (0::real) \<noteq> 10 ^ 16 + - (10 ^ 16) + 1"
proof -
  have r1: "replicate 1 (0::real) = [0]" by simp
  have h1: "update_step_rnd f64_round 1 (\<lambda>s. [1]) 1 (3::nat, 0, 1)
     \<lparr>G_val = 0, W_val = 1, C_tab = empty_table, Q_tab = empty_table\<rparr>
     = Inr (False, \<lparr>G_val = 1, W_val = 1, C_tab = empty_table(3 \<mapsto> [1]),
                     Q_tab = empty_table(3 \<mapsto> [1])\<rparr>)"
    by (simp add: update_step_rnd_def update_tables_rnd_def return_rnd_def getitem_eq Let_def
          create_greedy_policy_eq row_empty_table row_upd_same r1 np_argmax_def
          f64_round_0 f64_round_small)
  have h2: "update_step_rnd f64_round 1 (\<lambda>s. [1]) 1 (2::nat, 0, - (10 ^ 16))
     \<lparr>G_val = 1, W_val = 1, C_tab = empty_table(3 \<mapsto> [1]),
      Q_tab = empty_table(3 \<mapsto> [1])\<rparr>
     = Inr (False, \<lparr>G_val = - (10 ^ 16), W_val = 1,
                     C_tab = empty_table(3 \<mapsto> [1], 2 \<mapsto> [1]),
                     Q_tab = empty_table(3 \<mapsto> [1], 2 \<mapsto> [- (10 ^ 16)])\<rparr>)"
    by (simp add: update_step_rnd_def update_tables_rnd_def return_rnd_def getitem_eq Let_def
          create_greedy_policy_eq row_empty_table row_upd_same row_upd_other r1 np_argmax_def
          f64_round_0 f64_round_small f64_round_large)
  have h3: "update_step_rnd f64_round 1 (\<lambda>s. [1]) 1 (1::nat, 0, 10 ^ 16)
     \<lparr>G_val = - (10 ^ 16), W_val = 1,
      C_tab = empty_table(3 \<mapsto> [1], 2 \<mapsto> [1]),
      Q_tab = empty_table(3 \<mapsto> [1], 2 \<mapsto> [- (10 ^ 16)])\<rparr>
     = Inr (False, \<lparr>G_val = 0, W_val = 1,
                     C_tab = empty_table(3 \<mapsto> [1], 2 \<mapsto> [1], 1 \<mapsto> [1]),
                     Q_tab = empty_table(3 \<mapsto> [1], 2 \<mapsto> [- (10 ^ 16)], 1 \<mapsto> [0])\<rparr>)"
    by (simp add: update_step_rnd_def update_tables_rnd_def return_rnd_def getitem_eq Let_def
          create_greedy_policy_eq row_empty_table row_upd_same row_upd_other r1 np_argmax_def
          f64_round_0 f64_round_small f64_round_large)
  have p: "process_episode_rnd f64_round 1 (\<lambda>s. [1]) 1
     [(1::nat, 0, 10 ^ 16), (2, 0, - (10 ^ 16)), (3, 0, 1)] empty_table empty_table
     = Inr \<lparr>G_val = 0, W_val = 1,
            C_tab = empty_table(3 \<mapsto> [1], 2 \<mapsto> [1], 1 \<mapsto> [1]),
            Q_tab = empty_table(3 \<mapsto> [1], 2 \<mapsto> [- (10 ^ 16)], 1 \<mapsto> [0])\<rparr>"
    unfolding process_episode_rnd_def
    by (simp only: rev.simps append.simps backward_rnd.simps h1 h2 h3 sum.case prod.case
          if_False)
  have n: "(0::real) \<noteq> 10 ^ 16 + - (10 ^ 16) + 1" by simp
  from h1 h2 h3 p n show ?thesis by (intro conjI)
qed

text \<open>
  Claim C7, as amended. With discount factor 1, let the backward pass of a three-step
  episode with rewards \<open>r1, r2, r3\<close> (in the order of the episode) process its last and
  its middle step without a break. Then the return computed at the earliest step is the
  \<^verbatim>\<open>float64\<close> sum of the rewards from the last to the first, three runs of
  \<^verbatim>\<open>G = 1.0 * G + reward\<close> from 0 with every product and sum rounded to the nearest
  \<^verbatim>\<open>float64\<close> value. It is \<open>r1 + r2 + r3\<close> when \<open>r3\<close>, \<open>r3 + r2\<close> and
  \<open>r3 + r2 + r1\<close> are \<^verbatim>\<open>float64\<close> values, so that no sum is rounded. When the whole
  earliest step succeeds, this return is the \<^verbatim>\<open>G\<close> of the result of the backward pass.
\<close>

theorem f64_return_three_steps:
  assumes "update_step_rnd f64_round nA behavior_policy 1 (s3, a3, r3)
             \<lparr>G_val = 0, W_val = 1, C_tab = C0, Q_tab = Q0\<rparr> = Inr (False, st1)"
    and "update_step_rnd f64_round nA behavior_policy 1 (s2, a2, r2) st1 = Inr (False, st2)"
    and "update_tables_rnd f64_round nA 1 (s1, a1, r1) st2 = Inr st3"
  shows "return_rnd f64_round 1 0 r3 = Inr (G_val st1) \<and>
         return_rnd f64_round 1 (G_val st1) r2 = Inr (G_val st2) \<and>
         return_rnd f64_round 1 (G_val st2) r1 = Inr (G_val st3) \<and>
         (f64_round r3 = Inr r3 \<and> f64_round (r3 + r2) = Inr (r3 + r2) \<and>
          f64_round (r3 + r2 + r1) = Inr (r3 + r2 + r1) \<longrightarrow>
            G_val st3 = r1 + r2 + r3) \<and>
         (\<forall>brk st'. update_step_rnd f64_round nA behavior_policy 1 (s1, a1, r1) st2
                       = Inr (brk, st') \<longrightarrow>
            G_val st' = G_val st3 \<and>
            process_episode_rnd f64_round nA behavior_policy 1
              [(s1, a1, r1), (s2, a2, r2), (s3, a3, r3)] C0 Q0 = Inr st')"
proof -
  have g1: "return_rnd f64_round 1 0 r3 = Inr (G_val st1)"
    using update_step_rnd_return[OF assms(1)] by simp
  have g2: "return_rnd f64_round 1 (G_val st1) r2 = Inr (G_val st2)"
    by (rule update_step_rnd_return[OF assms(2)])
  have g3: "return_rnd f64_round 1 (G_val st2) r1 = Inr (G_val st3)"
    by (rule update_tables_rnd_return[OF assms(3)])
  have exact: "G_val st3 = r1 + r2 + r3"
    if e: "f64_round r3 = Inr r3 \<and> f64_round (r3 + r2) = Inr (r3 + r2) \<and>
           f64_round (r3 + r2 + r1) = Inr (r3 + r2 + r1)"
  proof -
    from g1 e have a: "G_val st1 = r3"
      by (simp add: return_rnd_def f64_round_0)
    from g2 e have b: "G_val st2 = r3 + r2"
      by (simp add: return_rnd_def a)
    from g3 e have "G_val st3 = r3 + r2 + r1"
      by (simp add: return_rnd_def b)
    then show ?thesis by simp
  qed
  have whole: "G_val st' = G_val st3 \<and>
               process_episode_rnd f64_round nA behavior_policy 1
                 [(s1, a1, r1), (s2, a2, r2), (s3, a3, r3)] C0 Q0 = Inr st'"
    if s: "update_step_rnd f64_round nA behavior_policy 1 (s1, a1, r1) st2 = Inr (brk, st')"
    for brk st'
  proof -
    from update_step_rnd_return[OF s] g3 have "G_val st' = G_val st3" by simp
    then show ?thesis
      by (simp add: process_episode_rnd_def assms s)
  qed
  from g1 g2 g3 exact whole show ?thesis by blast
qed

text \<open>Three steps with the rewards 3, 2, 1, two actions and the uniform behaviour policy.\<close>

lemma f64_example_step_1:
  "update_step_rnd f64_round 2 (\<lambda>s. [1 / 2, 1 / 2]) 1 (3::nat, 0, 1)
     \<lparr>G_val = 0, W_val = 1, C_tab = empty_table, Q_tab = empty_table\<rparr>
     = Inr (False, \<lparr>G_val = 1, W_val = 2, C_tab = empty_table(3 \<mapsto> [1, 0]),
                     Q_tab = empty_table(3 \<mapsto> [1, 0])\<rparr>)"
proof -
  have r2: "replicate 2 (0::real) = [0, 0]" by (simp add: eval_nat_numeral)
  show ?thesis
    by (simp add: update_step_rnd_def update_tables_rnd_def return_rnd_def getitem_eq
          create_greedy_policy_eq row_empty_table row_upd_same r2 np_argmax_def
          f64_round_0 f64_round_small)
qed

lemma f64_example_step_2:
  "update_step_rnd f64_round 2 (\<lambda>s. [1 / 2, 1 / 2]) 1 (2::nat, 0, 2)
     \<lparr>G_val = 1, W_val = 2, C_tab = empty_table(3 \<mapsto> [1, 0]),
      Q_tab = empty_table(3 \<mapsto> [1, 0])\<rparr>
     = Inr (False, \<lparr>G_val = 3, W_val = 4, C_tab = empty_table(3 \<mapsto> [1, 0], 2 \<mapsto> [2, 0]),
                     Q_tab = empty_table(3 \<mapsto> [1, 0], 2 \<mapsto> [3, 0])\<rparr>)"
proof -
  have r2: "replicate 2 (0::real) = [0, 0]" by (simp add: eval_nat_numeral)
  show ?thesis
    by (simp add: update_step_rnd_def update_tables_rnd_def return_rnd_def getitem_eq
          create_greedy_policy_eq row_empty_table row_upd_same row_upd_other r2 np_argmax_def
          f64_round_0 f64_round_small)
qed

lemma f64_example_step_3:
  "update_tables_rnd f64_round 2 1 (1::nat, 0, 3)
     \<lparr>G_val = 3, W_val = 4, C_tab = empty_table(3 \<mapsto> [1, 0], 2 \<mapsto> [2, 0]),
      Q_tab = empty_table(3 \<mapsto> [1, 0], 2 \<mapsto> [3, 0])\<rparr>
     = Inr \<lparr>G_val = 6, W_val = 4,
            C_tab = empty_table(3 \<mapsto> [1, 0], 2 \<mapsto> [2, 0], 1 \<mapsto> [4, 0]),
            Q_tab = empty_table(3 \<mapsto> [1, 0], 2 \<mapsto> [3, 0], 1 \<mapsto> [6, 0])\<rparr>"
proof -
  have r2: "replicate 2 (0::real) = [0, 0]" by (simp add: eval_nat_numeral)
  show ?thesis
    by (simp add: update_tables_rnd_def return_rnd_def getitem_eq
          row_empty_table row_upd_same row_upd_other r2 f64_round_0 f64_round_small)
qed

theorem f64_return_three_steps_witness:
  "update_step_rnd f64_round 2 (\<lambda>s. [1 / 2, 1 / 2]) 1 (3::nat, 0, 1)
     \<lparr>G_val = 0, W_val = 1, C_tab = empty_table, Q_tab = empty_table\<rparr>
     = Inr (False, \<lparr>G_val = 1, W_val = 2, C_tab = empty_table(3 \<mapsto> [1, 0]),
                     Q_tab = empty_table(3 \<mapsto> [1, 0])\<rparr>) \<and>
   update_step_rnd f64_round 2 (\<lambda>s. [1 / 2, 1 / 2]) 1 (2::nat, 0, 2)
     \<lparr>G_val = 1, W_val = 2, C_tab = empty_table(3 \<mapsto> [1, 0]),
      Q_tab = empty_table(3 \<mapsto> [1, 0])\<rparr>
     = Inr (False, \<lparr>G_val = 3, W_val = 4, C_tab = empty_table(3 \<mapsto> [1, 0], 2 \<mapsto> [2, 0]),
                     Q_tab = empty_table(3 \<mapsto> [1, 0], 2 \<mapsto> [3, 0])\<rparr>) \<and>
   update_tables_rnd f64_round 2 1 (1::nat, 0, 3)
     \<lparr>G_val = 3, W_val = 4, C_tab = empty_table(3 \<mapsto> [1, 0], 2 \<mapsto> [2, 0]),
      Q_tab = empty_table(3 \<mapsto> [1, 0], 2 \<mapsto> [3, 0])\<rparr>
     = Inr \<lparr>G_val = 6, W_val = 4,
            C_tab = empty_table(3 \<mapsto> [1, 0], 2 \<mapsto> [2, 0], 1 \<mapsto> [4, 0]),
            Q_tab = empty_table(3 \<mapsto> [1, 0], 2 \<mapsto> [3, 0], 1 \<mapsto> [6, 0])\<rparr> \<and>
   f64_round 1 = Inr 1 \<and> f64_round (1 + 2) = Inr (1 + 2) \<and>
   f64_round (1 + 2 + 3) = Inr (1 + 2 + 3) \<and>
   G_val \<lparr>G_val = 6, W_val = 4,
          C_tab = empty_table((3::nat) \<mapsto> [1, 0], 2 \<mapsto> [2, 0], 1 \<mapsto> [4, 0]),
          Q_tab = empty_table(3 \<mapsto> [1, 0], 2 \<mapsto> [3, 0], 1 \<mapsto> [6, 0])\<rparr> = 3 + 2 + 1"
proof -
  have e: "f64_round 1 = Inr 1 \<and> f64_round (1 + 2) = Inr (1 + 2) \<and>
           f64_round (1 + 2 + 3) = Inr (1 + 2 + 3)"
    by (simp add: f64_round_small)
  from f64_return_three_steps[OF f64_example_step_1 f64_example_step_2 f64_example_step_3] e
  have "G_val \<lparr>G_val = 6, W_val = 4,
          C_tab = empty_table((3::nat) \<mapsto> [1, 0], 2 \<mapsto> [2, 0], 1 \<mapsto> [4, 0]),
          Q_tab = empty_table(3 \<mapsto> [1, 0], 2 \<mapsto> [3, 0], 1 \<mapsto> [6, 0])\<rparr> = 3 + 2 + 1"
    by blast
  with f64_example_step_1 f64_example_step_2 f64_example_step_3 e show ?thesis
    by blast
qed

subsection \<open>Invariants of a run\<close>

text \<open>
  Along the iterations of a run: while every iteration runs with a positive weight, the
  rows of \<^verbatim>\<open>C\<close> keep their length, no cell of \<^verbatim>\<open>C\<close> decreases and none becomes
  negative; and the weight stays positive while the behaviour policy gives a positive
  probability to the actions processed.
\<close>

lemma update_step_C_tab:
  assumes "update_step nA behavior_policy discount_factor (state, action, reward) st = Inr (brk, st')"
  shows "action < length (row nA (C_tab st) state)"
    and "C_tab st' = (C_tab st)(state \<mapsto> (row nA (C_tab st) state)
                          [action := row nA (C_tab st) state ! action + W_val st])"
  using update_step_Inr[OF assms] by (auto dest: update_tables_Inr(1,6))

lemma update_step_W_val:
  assumes "update_step nA behavior_policy discount_factor (state, action, reward) st = Inr (brk, st')"
  shows "W_val st' = W_val st \<or>
         (action < length (behavior_policy state) \<and>
          W_val st' = W_val st / (behavior_policy state ! action))"
  using update_step_Inr[OF assms] by (auto dest: update_tables_Inr(5) split: if_splits)

lemma iterations_C_nonneg:
  assumes "iterations nA behavior_policy discount_factor st0 h st"
    and "\<forall>(w, s, a)\<in>set h. 0 < w"
    and "\<forall>s. \<forall>x\<in>set (row nA (C_tab st0) s). 0 \<le> x"
  shows "\<forall>s. \<forall>x\<in>set (row nA (C_tab st) s). 0 \<le> x"
  using assms
proof (induction rule: iterations.induct)
  case start
  then show ?case by simp
next
  case (next_episode h st)
  then show ?case by simp
next
  case (iteration h st state action reward brk st')
  have w: "0 < W_val st" using iteration.prems(1) by simp
  have ih: "\<forall>s. \<forall>x\<in>set (row nA (C_tab st) s). 0 \<le> x"
    using iteration.IH iteration.prems by simp
  note c = update_step_C_tab[OF iteration.hyps(2)]
  show ?case
  proof (intro allI ballI)
    fix s x
    assume x: "x \<in> set (row nA (C_tab st') s)"
    show "0 \<le> x"
    proof (cases "s = state")
      case True
      with x have "x \<in> set ((row nA (C_tab st) state)
                     [action := row nA (C_tab st) state ! action + W_val st])"
        by (simp add: c(2) row_upd_same)
      then have "x = row nA (C_tab st) state ! action + W_val st \<or>
                 x \<in> set (row nA (C_tab st) state)"
        using set_update_subset_insert by fastforce
      moreover have "0 \<le> row nA (C_tab st) state ! action"
        using ih nth_mem[OF c(1)] by blast
      ultimately show ?thesis using w ih by auto
    next
      case False
      with x ih show ?thesis by (simp add: c(2) row_upd_other)
    qed
  qed
qed

lemma iterations_C_mono:
  assumes "iterations nA behavior_policy discount_factor st0 h st"
    and "\<forall>(w, s, a)\<in>set h. 0 < w"
  shows "\<forall>s. length (row nA (C_tab st) s) = length (row nA (C_tab st0) s) \<and>
             (\<forall>a. cell nA (C_tab st0) s a \<le> cell nA (C_tab st) s a)"
  using assms
proof (induction rule: iterations.induct)
  case start
  then show ?case by simp
next
  case (next_episode h st)
  then show ?case by simp
next
  case (iteration h st state action reward brk st')
  have w: "0 < W_val st" using iteration.prems(1) by simp
  have ih: "\<forall>s. length (row nA (C_tab st) s) = length (row nA (C_tab st0) s) \<and>
             (\<forall>a. cell nA (C_tab st0) s a \<le> cell nA (C_tab st) s a)"
    using iteration.IH iteration.prems by simp
  note c = update_step_C_tab[OF iteration.hyps(2)]
  show ?case
  proof (intro allI conjI)
    fix s
    show "length (row nA (C_tab st') s) = length (row nA (C_tab st0) s)"
      using ih by (cases "s = state") (simp_all add: c(2) row_upd_same row_upd_other)
    fix a
    have "cell nA (C_tab st) s a \<le> cell nA (C_tab st') s a"
      using w c(1) unfolding c(2) cell_upd by (simp add: cell_def)
    with ih show "cell nA (C_tab st0) s a \<le> cell nA (C_tab st') s a"
      by (meson order_trans)
  qed
qed

lemma iterations_W_pos:
  assumes "iterations nA behavior_policy discount_factor st0 h st"
    and "0 < W_val st0"
    and "\<forall>(w, s, a)\<in>set h. a < length (behavior_policy s) \<longrightarrow> 0 < behavior_policy s ! a"
  shows "0 < W_val st \<and> (\<forall>(w, s, a)\<in>set h. 0 < w)"
  using assms
proof (induction rule: iterations.induct)
  case start
  then show ?case by simp
next
  case (next_episode h st)
  then show ?case by simp
next
  case (iteration h st state action reward brk st')
  have ih: "0 < W_val st \<and> (\<forall>(w, s, a)\<in>set h. 0 < w)"
    using iteration.IH iteration.prems by auto
  have p: "action < length (behavior_policy state) \<Longrightarrow> 0 < behavior_policy state ! action"
    using iteration.prems(2) by simp
  from update_step_W_val[OF iteration.hyps(2)] ih p have "0 < W_val st'"
    by auto
  with ih show ?case by auto
qed

lemma first_state_rows:
  "row nA (C_tab first_state) s = replicate nA 0"
  "row nA (Q_tab first_state) s = replicate nA 0"
  by (simp_all add: first_state_def row_empty_table)

text \<open>
  The step relation covers the program: a backward pass, the loop over the episodes and
  the whole of \<open>mc_control_importance_sampling\<close> move along \<open>iterations\<close>, and the
  backward pass processes only pairs of its trajectory.
\<close>

lemma iterations_trans:
  assumes "iterations nA behavior_policy discount_factor st1 h2 st2"
    and "iterations nA behavior_policy discount_factor st0 h1 st1"
  shows "iterations nA behavior_policy discount_factor st0 (h2 @ h1) st2"
  using assms
proof (induction rule: iterations.induct)
  case start
  then show ?case by simp
next
  case (next_episode h st)
  then show ?case by (simp add: iterations.next_episode)
next
  case (iteration h st state action reward brk st')
  then show ?case by (simp add: iterations.iteration)
qed

lemma backward_iterations:
  assumes "backward nA behavior_policy discount_factor trs st = Inr st'"
  shows "\<exists>h. iterations nA behavior_policy discount_factor st h st' \<and>
             (\<forall>(w, s, a)\<in>set h. \<exists>r. (s, a, r) \<in> set trs)"
  using assms
proof (induction trs arbitrary: st)
  case Nil
  then have "st' = st" by simp
  then show ?case using iterations.start[of nA behavior_policy discount_factor st] by auto
next
  case (Cons tr trs)
  obtain state action reward where tr: "tr = (state, action, reward)" by (cases tr) auto
  from Cons.prems obtain brk st1 where
    s: "update_step nA behavior_policy discount_factor (state, action, reward) st = Inr (brk, st1)"
    and r: "if brk then st' = st1
            else backward nA behavior_policy discount_factor trs st1 = Inr st'"
    by (auto simp: tr split: sum.splits if_splits)
  have one: "iterations nA behavior_policy discount_factor st [(W_val st, state, action)] st1"
    using iterations.iteration[OF iterations.start s] .
  show ?case
  proof (cases brk)
    case True
    with r one show ?thesis by (auto simp: tr intro!: exI[of _ "[(W_val st, state, action)]"])
  next
    case False
    with r have "backward nA behavior_policy discount_factor trs st1 = Inr st'" by simp
    from Cons.IH[OF this] obtain h where
      h: "iterations nA behavior_policy discount_factor st1 h st'"
         "\<forall>(w, s, a)\<in>set h. \<exists>r. (s, a, r) \<in> set trs"
      by blast
    have "\<forall>(w, s, a)\<in>set (h @ [(W_val st, state, action)]). \<exists>r. (s, a, r) \<in> set (tr # trs)"
      using h(2) by (fastforce simp: tr)
    with iterations_trans[OF h(1) one] show ?thesis by blast
  qed
qed


lemma episodes_loop_iterations:
  assumes "episodes_loop n env random_choice behavior_policy discount_factor C Q w
             = Inr ((C', Q'), w')"
  shows "\<exists>h G W. iterations (action_space_n env) behavior_policy discount_factor
                    \<lparr>G_val = G0, W_val = W0, C_tab = C, Q_tab = Q\<rparr> h
                    \<lparr>G_val = G, W_val = W, C_tab = C', Q_tab = Q'\<rparr>"
  using assms
proof (induction n arbitrary: C Q w G0 W0)
  case 0
  then have "C' = C" "Q' = Q" by simp_all
  then show ?case
    using iterations.start[of "action_space_n env" behavior_policy discount_factor
        "\<lparr>G_val = G0, W_val = W0, C_tab = C, Q_tab = Q\<rparr>"]
    by blast
next
  case (Suc n)
  obtain episode w1 where g: "generate_episode env random_choice behavior_policy w = (episode, w1)"
    by (cases "generate_episode env random_choice behavior_policy w") auto
  from Suc.prems obtain st where
    p: "process_episode (action_space_n env) behavior_policy discount_factor episode C Q = Inr st"
    and l: "episodes_loop n env random_choice behavior_policy discount_factor
              (C_tab st) (Q_tab st) w1 = Inr ((C', Q'), w')"
    by (auto simp: g split: sum.splits)
  from p have "backward (action_space_n env) behavior_policy discount_factor (rev episode)
                 \<lparr>G_val = 0, W_val = 1, C_tab = C, Q_tab = Q\<rparr> = Inr st"
    by (simp add: process_episode_def)
  from backward_iterations[OF this] obtain h1 where
    h1: "iterations (action_space_n env) behavior_policy discount_factor
           \<lparr>G_val = 0, W_val = 1, C_tab = C, Q_tab = Q\<rparr> h1 st"
    by blast
  have r: "iterations (action_space_n env) behavior_policy discount_factor
             \<lparr>G_val = G0, W_val = W0, C_tab = C, Q_tab = Q\<rparr> []
             \<lparr>G_val = 0, W_val = 1, C_tab = C, Q_tab = Q\<rparr>"
    using iterations.next_episode[OF iterations.start,
        of "action_space_n env" behavior_policy discount_factor
           "\<lparr>G_val = G0, W_val = W0, C_tab = C, Q_tab = Q\<rparr>"]
    by simp
  have eq: "\<lparr>G_val = G_val st, W_val = W_val st, C_tab = C_tab st, Q_tab = Q_tab st\<rparr> = st"
    by simp
  from Suc.IH[OF l, of "G_val st" "W_val st"] obtain h2 G W where
    h2: "iterations (action_space_n env) behavior_policy discount_factor st h2
           \<lparr>G_val = G, W_val = W, C_tab = C', Q_tab = Q'\<rparr>"
    unfolding eq by blast
  from iterations_trans[OF h2 iterations_trans[OF h1 r]] show ?case by blast
qed

lemma mc_control_iterations:
  assumes "mc_control_importance_sampling env random_choice num_episodes behavior_policy
             discount_factor w = Inr (Q', w')"
  shows "\<exists>h G W C'. iterations (action_space_n env) behavior_policy discount_factor
                       first_state h \<lparr>G_val = G, W_val = W, C_tab = C', Q_tab = Q'\<rparr>"
proof -
  from assms obtain C' where
    "episodes_loop num_episodes env random_choice behavior_policy discount_factor
       empty_table empty_table w = Inr ((C', Q'), w')"
    by (auto simp: mc_control_importance_sampling_def split: sum.splits)
  from episodes_loop_iterations[OF this, of 0 1] show ?thesis
    unfolding first_state_def by blast
qed

text \<open>Two iterations from the first state of a run, used as examples below.\<close>

lemma example_iteration_1:
  "update_step 2 (\<lambda>s. [1 / 2, 1 / 2]) 1 (3::nat, 0, 1) first_state
     = Inr (False, \<lparr>G_val = 1, W_val = 2, C_tab = empty_table(3 \<mapsto> [1, 0]),
                     Q_tab = empty_table(3 \<mapsto> [1, 0])\<rparr>)"
proof -
  have r2: "replicate 2 (0::real) = [0, 0]" by (simp add: eval_nat_numeral)
  show ?thesis
    by (simp add: first_state_def update_step_def update_tables_eq create_greedy_policy_eq
          row_empty_table row_upd_same r2 np_argmax_def)
qed

lemma example_iteration_2:
  "update_step 2 (\<lambda>s. [1 / 2, 1 / 2]) 1 (3::nat, 0, 2)
     \<lparr>G_val = 1, W_val = 2, C_tab = empty_table(3 \<mapsto> [1, 0]),
      Q_tab = empty_table(3 \<mapsto> [1, 0])\<rparr>
     = Inr (False, \<lparr>G_val = 3, W_val = 4, C_tab = empty_table(3 \<mapsto> [3, 0]),
                     Q_tab = empty_table(3 \<mapsto> [7 / 3, 0])\<rparr>)"
  by (simp add: update_step_def update_tables_eq create_greedy_policy_eq
        row_upd_same np_argmax_def)

text \<open>
  Claim C5. Take any iteration of the backward pass in a run, started from the empty
  tables, in which every iteration so far ran with a strictly positive weight, and let
  the weight \<^verbatim>\<open>W\<close> of this iteration be strictly positive too. Then the update of the
  tables does not end in a division by zero; and when it completes, the cell
  \<^verbatim>\<open>C[state][action]\<close>, which is the denominator of the division, is the old cell
  plus \<^verbatim>\<open>W\<close>, at least \<^verbatim>\<open>W\<close>, and strictly positive.
\<close>

theorem denominator_at_least_W:
  assumes "iterations nA behavior_policy discount_factor first_state h st"
    and "\<forall>(w, s, a)\<in>set h. 0 < w"
    and "0 < W_val st"
  shows "update_tables nA discount_factor (state, action, reward) st \<noteq> Inl ZeroDivision \<and>
         (\<forall>st'. update_tables nA discount_factor (state, action, reward) st = Inr st' \<longrightarrow>
            cell nA (C_tab st') state action = cell nA (C_tab st) state action + W_val st \<and>
            W_val st \<le> cell nA (C_tab st') state action \<and>
            0 < cell nA (C_tab st') state action)"
proof -
  have "\<forall>s. \<forall>x\<in>set (row nA (C_tab st) s). 0 \<le> x"
    using iterations_C_nonneg[OF assms(1,2)] by (simp add: first_state_rows)
  then have nonneg: "0 \<le> row nA (C_tab st) state ! action"
    if "action < length (row nA (C_tab st) state)"
    using nth_mem[OF that] by blast
  have a: "update_tables nA discount_factor (state, action, reward) st \<noteq> Inl ZeroDivision"
  proof (cases "action < length (row nA (C_tab st) state)")
    case True
    from nonneg[OF True] assms(3)
    have "row nA (C_tab st) state ! action + W_val st \<noteq> 0" by simp
    then show ?thesis by (simp add: update_tables_eq)
  next
    case False
    then show ?thesis by (simp add: update_tables_eq)
  qed
  have b: "cell nA (C_tab st') state action = cell nA (C_tab st) state action + W_val st \<and>
           W_val st \<le> cell nA (C_tab st') state action \<and>
           0 < cell nA (C_tab st') state action"
    if "update_tables nA discount_factor (state, action, reward) st = Inr st'" for st'
  proof -
    note u = update_tables_Inr[OF that]
    have "cell nA (C_tab st') state action = cell nA (C_tab st) state action + W_val st"
      using u(1) by (simp add: u(6) cell_def row_upd_same)
    with nonneg[OF u(1)] assms(3) show ?thesis by (simp add: cell_def)
  qed
  from a b show ?thesis by blast
qed

theorem denominator_at_least_W_witness:
  "iterations 2 (\<lambda>s. [1 / 2, 1 / 2]) 1 first_state [(1, 3::nat, 0)]
     \<lparr>G_val = 1, W_val = 2, C_tab = empty_table(3 \<mapsto> [1, 0]),
      Q_tab = empty_table(3 \<mapsto> [1, 0])\<rparr> \<and>
   update_tables 2 1 (3::nat, 0, 2)
     \<lparr>G_val = 1, W_val = 2, C_tab = empty_table(3 \<mapsto> [1, 0]),
      Q_tab = empty_table(3 \<mapsto> [1, 0])\<rparr>
     = Inr \<lparr>G_val = 3, W_val = 2, C_tab = empty_table(3 \<mapsto> [3, 0]),
            Q_tab = empty_table(3 \<mapsto> [7 / 3, 0])\<rparr> \<and>
   cell 2 (empty_table((3::nat) \<mapsto> [3, 0])) 3 0
     = cell 2 (empty_table((3::nat) \<mapsto> [1, 0])) 3 0 + 2 \<and>
   (2::real) \<le> cell 2 (empty_table((3::nat) \<mapsto> [3, 0])) 3 0 \<and>
   0 < cell 2 (empty_table((3::nat) \<mapsto> [3, 0])) 3 0"
proof -
  let ?st = "\<lparr>G_val = 1, W_val = 2, C_tab = empty_table((3::nat) \<mapsto> [1, 0]),
              Q_tab = empty_table(3 \<mapsto> [1, 0])\<rparr>"
  let ?st' = "\<lparr>G_val = 3, W_val = 2, C_tab = empty_table((3::nat) \<mapsto> [3, 0]),
               Q_tab = empty_table(3 \<mapsto> [7 / 3, 0])\<rparr>"
  have i: "iterations 2 (\<lambda>s. [1 / 2, 1 / 2]) 1 first_state
             [(W_val (first_state :: nat lstate), 3::nat, 0)] ?st"
    by (rule iterations.iteration[OF iterations.start example_iteration_1])
  then have i': "iterations 2 (\<lambda>s. [1 / 2, 1 / 2]) 1 first_state [(1, 3::nat, 0)] ?st"
    by (simp add: first_state_def)
  have hw: "\<forall>(w, s, a)\<in>set [(1::real, 3::nat, 0::nat)]. 0 < w" by simp
  have w: "0 < W_val ?st" by simp
  have u: "update_tables 2 1 (3::nat, 0, 2) ?st = Inr ?st'"
    by (simp add: update_tables_eq row_upd_same)
  from denominator_at_least_W[OF i' hw w, of 3 0 2] u have
    "cell 2 (C_tab ?st') 3 0 = cell 2 (C_tab ?st) 3 0 + W_val ?st \<and>
     W_val ?st \<le> cell 2 (C_tab ?st') 3 0 \<and> 0 < cell 2 (C_tab ?st') 3 0"
    by blast
  with i' u show ?thesis by simp
qed

text \<open>
  Claim C6. Let a run, started from the empty tables, reach a loop state \<open>st1\<close> and
  later a loop state \<open>st2\<close> (after any number of iterations, in the same episode or in
  later ones), and let the behaviour policy give a strictly positive probability to every
  action processed on the way. Then for every state and every action of the action space
  the cell of \<^verbatim>\<open>C\<close> in \<open>st2\<close> is at least the cell in \<open>st1\<close>, and it is not negative.
\<close>

theorem C_cells_monotone_nonneg:
  assumes "iterations nA behavior_policy discount_factor first_state h1 st1"
    and "iterations nA behavior_policy discount_factor st1 h2 st2"
    and "\<forall>(w, s, a)\<in>set (h2 @ h1).
           a < length (behavior_policy s) \<longrightarrow> 0 < behavior_policy s ! a"
  shows "\<forall>s a. a < nA \<longrightarrow>
           cell nA (C_tab st1) s a \<le> cell nA (C_tab st2) s a \<and>
           0 \<le> cell nA (C_tab st2) s a"
proof -
  have p1: "\<forall>(w, s, a)\<in>set h1. a < length (behavior_policy s) \<longrightarrow> 0 < behavior_policy s ! a"
    and p2: "\<forall>(w, s, a)\<in>set h2. a < length (behavior_policy s) \<longrightarrow> 0 < behavior_policy s ! a"
    using assms(3) by auto
  have w0: "0 < W_val (first_state :: 'a lstate)" by (simp add: first_state_def)
  from iterations_W_pos[OF assms(1) w0 p1] have w1: "0 < W_val st1"
    and hw1: "\<forall>(w, s, a)\<in>set h1. 0 < w"
    by auto
  from iterations_W_pos[OF assms(2) w1 p2] have hw2: "\<forall>(w, s, a)\<in>set h2. 0 < w"
    by auto
  have n1: "\<forall>s. \<forall>x\<in>set (row nA (C_tab st1) s). 0 \<le> x"
    using iterations_C_nonneg[OF assms(1) hw1] by (simp add: first_state_rows)
  have n2: "\<forall>s. \<forall>x\<in>set (row nA (C_tab st2) s). 0 \<le> x"
    by (rule iterations_C_nonneg[OF assms(2) hw2 n1])
  note m1 = iterations_C_mono[OF assms(1) hw1]
  note m2 = iterations_C_mono[OF assms(2) hw2]
  have len: "length (row nA (C_tab st2) s) = nA" for s
    using m1 m2 by (simp add: first_state_rows)
  show ?thesis
  proof (intro allI impI conjI)
    fix s a
    assume a: "a < nA"
    show "cell nA (C_tab st1) s a \<le> cell nA (C_tab st2) s a"
      using m2 by simp
    have "row nA (C_tab st2) s ! a \<in> set (row nA (C_tab st2) s)"
      using a len by simp
    with n2 show "0 \<le> cell nA (C_tab st2) s a"
      unfolding cell_def by blast
  qed
qed

theorem C_cells_monotone_nonneg_witness:
  "iterations 2 (\<lambda>s. [1 / 2, 1 / 2]) 1 first_state [(1, 3::nat, 0)]
     \<lparr>G_val = 1, W_val = 2, C_tab = empty_table(3 \<mapsto> [1, 0]),
      Q_tab = empty_table(3 \<mapsto> [1, 0])\<rparr> \<and>
   iterations 2 (\<lambda>s. [1 / 2, 1 / 2]) 1
     \<lparr>G_val = 1, W_val = 2, C_tab = empty_table(3 \<mapsto> [1, 0]),
      Q_tab = empty_table(3 \<mapsto> [1, 0])\<rparr> [(2, 3::nat, 0)]
     \<lparr>G_val = 3, W_val = 4, C_tab = empty_table(3 \<mapsto> [3, 0]),
      Q_tab = empty_table(3 \<mapsto> [7 / 3, 0])\<rparr> \<and>
   cell 2 (empty_table((3::nat) \<mapsto> [1, 0])) 3 0 \<le> cell 2 (empty_table((3::nat) \<mapsto> [3, 0])) 3 0 \<and>
   0 \<le> cell 2 (empty_table((3::nat) \<mapsto> [3, 0])) 3 0"
proof -
  let ?b = "\<lambda>s::nat. [1 / 2, 1 / 2 :: real]"
  let ?st1 = "\<lparr>G_val = 1, W_val = 2, C_tab = empty_table((3::nat) \<mapsto> [1, 0]),
               Q_tab = empty_table(3 \<mapsto> [1, 0])\<rparr>"
  let ?st2 = "\<lparr>G_val = 3, W_val = 4, C_tab = empty_table((3::nat) \<mapsto> [3, 0]),
               Q_tab = empty_table(3 \<mapsto> [7 / 3, 0])\<rparr>"
  have "iterations 2 ?b 1 first_state [(W_val (first_state :: nat lstate), 3::nat, 0)] ?st1"
    by (rule iterations.iteration[OF iterations.start example_iteration_1])
  then have i1: "iterations 2 ?b 1 first_state [(1, 3::nat, 0)] ?st1"
    by (simp add: first_state_def)
  have "iterations 2 ?b 1 ?st1 [(W_val ?st1, 3::nat, 0)] ?st2"
    by (rule iterations.iteration[OF iterations.start example_iteration_2])
  then have i2: "iterations 2 ?b 1 ?st1 [(2, 3::nat, 0)] ?st2"
    by simp
  have p: "\<forall>(w, s, a)\<in>set ([(2::real, 3::nat, 0::nat)] @ [(1, 3, 0)]).
             a < length (?b s) \<longrightarrow> 0 < ?b s ! a"
    by simp
  from C_cells_monotone_nonneg[OF i1 i2 p] have
    "cell 2 (C_tab ?st1) 3 0 \<le> cell 2 (C_tab ?st2) 3 0 \<and> 0 \<le> cell 2 (C_tab ?st2) 3 0"
    by simp
  with i1 i2 show ?thesis by simp
qed

subsection \<open>The episode generator\<close>

lemma length_rollout:
  "length (rollout n env random_choice behavior_policy state w) = n"
  by (induction n arbitrary: state w) (simp_all split: prod.splits)

lemma generate_from_rollout:
  "\<exists>k. k \<le> n \<and> (n = 0 \<or> 0 < k) \<and>
        fst (generate_from n env random_choice behavior_policy state episode w)
          = episode @ map fst (take k (rollout n env random_choice behavior_policy state w)) \<and>
        (\<forall>i<k - 1. \<not> snd (rollout n env random_choice behavior_policy state w ! i)) \<and>
        (k < n \<longrightarrow> snd (rollout n env random_choice behavior_policy state w ! (k - 1)))"
proof (induction n arbitrary: state episode w)
  case 0
  show ?case by simp
next
  case (Suc n)
  obtain action w1 where c: "random_choice (behavior_policy state) w = (action, w1)"
    by (cases "random_choice (behavior_policy state) w") auto
  obtain next_state reward dn w2 where
    s: "step env action w1 = ((next_state, reward, dn), w2)"
    by (cases "step env action w1") auto
  let ?rest = "rollout n env random_choice behavior_policy next_state w2"
  have r: "rollout (Suc n) env random_choice behavior_policy state w
             = ((state, action, reward), dn) # ?rest"
    by (simp add: c s)
  show ?case
  proof (cases dn)
    case True
    have "fst (generate_from (Suc n) env random_choice behavior_policy state episode w)
            = episode @ [(state, action, reward)]"
      by (simp add: c s True)
    then show ?thesis
      unfolding r using True by (intro exI[of _ 1]) simp
  next
    case False
    from Suc.IH[of next_state "episode @ [(state, action, reward)]" w2] obtain k where
      k: "k \<le> n" "n = 0 \<or> 0 < k"
         "fst (generate_from n env random_choice behavior_policy next_state
                 (episode @ [(state, action, reward)]) w2)
            = (episode @ [(state, action, reward)]) @ map fst (take k ?rest)"
         "\<forall>i<k - 1. \<not> snd (?rest ! i)"
         "k < n \<longrightarrow> snd (?rest ! (k - 1))"
      by blast
    have g: "fst (generate_from (Suc n) env random_choice behavior_policy state episode w)
            = episode @ map fst (take (Suc k) (((state, action, reward), dn) # ?rest))"
      using k(3) by (simp add: c s False)
    have a: "\<forall>i<Suc k - 1. \<not> snd ((((state, action, reward), dn) # ?rest) ! i)"
    proof (intro allI impI)
      fix i assume i: "i < Suc k - 1"
      show "\<not> snd ((((state, action, reward), dn) # ?rest) ! i)"
      proof (cases i)
        case 0
        then show ?thesis using False by simp
      next
        case (Suc j)
        with i have "j < k - 1" by simp
        with k(4) Suc show ?thesis by simp
      qed
    qed
    have b: "Suc k < Suc n \<longrightarrow> snd ((((state, action, reward), dn) # ?rest) ! (Suc k - 1))"
    proof
      assume "Suc k < Suc n"
      then have kn: "k < n" by simp
      with k(2) have "0 < k" by auto
      then obtain j where j: "k = Suc j" by (cases k) auto
      from k(5) kn have "snd (?rest ! (k - 1))" by simp
      then show "snd ((((state, action, reward), dn) # ?rest) ! (Suc k - 1))"
        by (simp add: j)
    qed
    show ?thesis
      unfolding r using k(1) g a b by (intro exI[of _ "Suc k"]) simp
  qed
qed

text \<open>
  Claim C8. For every environment, sampler and behaviour policy the generator returns
  an episode (it has no failing branch of its own) of at least one and at most
  \<open>MAX_STEP\<close> triples. The episode is the steps the environment takes under the
  behaviour policy, one triple appended per step, up to and including the first step that
  reports \<^verbatim>\<open>done\<close>: no step before the last one of the episode reported \<^verbatim>\<open>done\<close>, and
  an episode shorter than \<open>MAX_STEP\<close> ends with a step that did. If no step within the
  budget reports \<^verbatim>\<open>done\<close>, the episode has exactly \<open>MAX_STEP\<close> triples. In either
  case the control loop runs the backward pass on the episode.
\<close>

theorem episode_generator_bounded:
  "length (fst (generate_episode env random_choice behavior_policy w)) \<le> MAX_STEP \<and>
   0 < length (fst (generate_episode env random_choice behavior_policy w)) \<and>
   fst (generate_episode env random_choice behavior_policy w)
     = map fst (take (length (fst (generate_episode env random_choice behavior_policy w)))
         (rollout MAX_STEP env random_choice behavior_policy
            (fst (reset env w)) (snd (reset env w)))) \<and>
   (\<forall>i<length (fst (generate_episode env random_choice behavior_policy w)) - 1.
      \<not> snd (rollout MAX_STEP env random_choice behavior_policy
               (fst (reset env w)) (snd (reset env w)) ! i)) \<and>
   (length (fst (generate_episode env random_choice behavior_policy w)) < MAX_STEP \<longrightarrow>
      snd (rollout MAX_STEP env random_choice behavior_policy
             (fst (reset env w)) (snd (reset env w))
           ! (length (fst (generate_episode env random_choice behavior_policy w)) - 1))) \<and>
   ((\<forall>x\<in>set (rollout MAX_STEP env random_choice behavior_policy
                    (fst (reset env w)) (snd (reset env w))). \<not> snd x) \<longrightarrow>
      length (fst (generate_episode env random_choice behavior_policy w)) = MAX_STEP) \<and>
   episodes_loop (Suc n) env random_choice behavior_policy discount_factor C Q w
     = (case process_episode (action_space_n env) behavior_policy discount_factor
               (fst (generate_episode env random_choice behavior_policy w)) C Q of
          Inl e \<Rightarrow> Inl e
        | Inr st \<Rightarrow>
            episodes_loop n env random_choice behavior_policy discount_factor
              (C_tab st) (Q_tab st)
              (snd (generate_episode env random_choice behavior_policy w)))"
proof -
  let ?tr = "rollout MAX_STEP env random_choice behavior_policy
               (fst (reset env w)) (snd (reset env w))"
  let ?ep = "fst (generate_episode env random_choice behavior_policy w)"
  have ge: "?ep = fst (generate_from MAX_STEP env random_choice behavior_policy
                         (fst (reset env w)) [] (snd (reset env w)))"
    by (simp add: generate_episode_def split: prod.splits)
  from generate_from_rollout[of MAX_STEP env random_choice behavior_policy
      "fst (reset env w)" "[]" "snd (reset env w)"]
  obtain k where
    k: "k \<le> MAX_STEP" "MAX_STEP = 0 \<or> 0 < k" "?ep = map fst (take k ?tr)"
       "\<forall>i<k - 1. \<not> snd (?tr ! i)" "k < MAX_STEP \<longrightarrow> snd (?tr ! (k - 1))"
    unfolding ge by auto
  have len: "length ?ep = k"
    using k(1) by (simp add: k(3) length_rollout)
  have pos: "0 < k" using k(2) by (simp add: MAX_STEP_def)
  have loop: "episodes_loop (Suc n) env random_choice behavior_policy discount_factor C Q w
     = (case process_episode (action_space_n env) behavior_policy discount_factor ?ep C Q of
          Inl e \<Rightarrow> Inl e
        | Inr st \<Rightarrow>
            episodes_loop n env random_choice behavior_policy discount_factor
              (C_tab st) (Q_tab st)
              (snd (generate_episode env random_choice behavior_policy w)))"
    by (cases "generate_episode env random_choice behavior_policy w")
      (simp split: sum.splits)
  have full: "k = MAX_STEP" if "\<forall>x\<in>set ?tr. \<not> snd x"
  proof (rule ccontr)
    assume "k \<noteq> MAX_STEP"
    with k(1) have lt: "k < MAX_STEP" by simp
    with k(5) have "snd (?tr ! (k - 1))" by simp
    moreover have "?tr ! (k - 1) \<in> set ?tr"
      using lt by (simp add: length_rollout)
    ultimately show False using that by blast
  qed
  from full have full': "(\<forall>x\<in>set ?tr. \<not> snd x) \<longrightarrow> k = MAX_STEP" by blast
  show ?thesis
    unfolding len using k(1) pos k(3) k(4) k(5) full' loop by (intro conjI)
qed

theorem episode_generator_bounded_witness:
  "fst (generate_episode
          \<lparr>action_space_n = 1, reset = (\<lambda>w::nat. (0::nat, 0)),
           step = (\<lambda>a w. ((Suc w, - 1, 1 \<le> w), Suc w))\<rparr>
          (\<lambda>probs w. (0, w)) (\<lambda>s. [1]) 0)
     = [(0, 0, - 1), (1, 0, - 1)] \<and>
   length (fst (generate_episode
          \<lparr>action_space_n = 1, reset = (\<lambda>w::nat. (0::nat, 0)),
           step = (\<lambda>a w. ((Suc w, - 1, 1 \<le> w), Suc w))\<rparr>
          (\<lambda>probs w. (0, w)) (\<lambda>s. [1]) 0)) \<le> MAX_STEP \<and>
   snd (rollout MAX_STEP
          \<lparr>action_space_n = 1, reset = (\<lambda>w::nat. (0::nat, 0)),
           step = (\<lambda>a w. ((Suc w, - 1, 1 \<le> w), Suc w))\<rparr>
          (\<lambda>probs w. (0, w)) (\<lambda>s. [1]) 0 0 ! 1)"
proof -
  let ?env = "\<lparr>action_space_n = 1, reset = (\<lambda>w::nat. (0::nat, 0)),
               step = (\<lambda>a w. ((Suc w, - 1, 1 \<le> w), Suc w))\<rparr>"
  let ?rc = "\<lambda>(probs::real list) (w::nat). (0::nat, w)"
  let ?b = "\<lambda>s::nat. [1::real]"
  have g: "generate_from (Suc (Suc m)) ?env ?rc ?b 0 [] 0 = ([(0, 0, - 1), (1, 0, - 1)], 2)"
    for m
    by simp
  have m: "MAX_STEP = Suc (Suc 68)" by (simp add: MAX_STEP_def)
  have "generate_episode ?env ?rc ?b 0 = generate_from MAX_STEP ?env ?rc ?b 0 [] 0"
    by (simp add: generate_episode_def)
  also have "\<dots> = ([(0, 0, - 1), (1, 0, - 1)], 2)"
    unfolding m by (rule g)
  finally have e: "fst (generate_episode ?env ?rc ?b 0) = [(0, 0, - 1), (1, 0, - 1)]"
    by simp
  have r: "fst (reset ?env 0) = 0" "snd (reset ?env 0) = 0" by simp_all
  have lt: "length (fst (generate_episode ?env ?rc ?b 0)) < MAX_STEP"
    unfolding e by (simp add: MAX_STEP_def)
  from episode_generator_bounded[of ?env ?rc ?b 0 0 1 empty_table empty_table] lt
  have "length (fst (generate_episode ?env ?rc ?b 0)) \<le> MAX_STEP"
    and "snd (rollout MAX_STEP ?env ?rc ?b (fst (reset ?env 0)) (snd (reset ?env 0))
           ! (length (fst (generate_episode ?env ?rc ?b 0)) - 1))"
    by blast+
  then show ?thesis
    unfolding r using e by simp
qed

end
